theory Spec2Isabelle
  imports Main "HOL-Library.Word"
begin

unbundle bit_operations_syntax

section \<open>The three-channel client of host/ipc (socket.cc)\<close>

text \<open>
  The class \<open>SocketClient\<close> of \<open>host/ipc/src/socket/socket.cc\<close> holds three file
  descriptors, the flag \<open>socket_initialized\<close> (the session is ready) and the flag
  \<open>dma_handler_running\<close>. A descriptor is valid when it is not negative. The operating
  system is the environment: every system call of the source is an event of the model,
  and the value the call returned is taken from an environment record.
\<close>

datatype channel = CMD | DMA_READ | DMA_WRITE

text \<open>
  Modelled from the spec: the header \<open>ipc/socket.h\<close> with the message tags and the wire
  structs is not among the sources. The tags are the three the code assigns; the request
  record has the fields the code assigns, in the order of the spec's table of wire records.
  The width of the header's \<open>reserved\<close> field is not given; the model takes 32 bits.
\<close>

datatype msg_type = MSG_TYPE_CMD_REQ | MSG_TYPE_DMA_READ_RESP | MSG_TYPE_DMA_WRITE_RESP

record msg_header_t =
  msg_type :: msg_type
  reserved :: "32 word"

record cmd_req_t =
  header :: msg_header_t
  funct :: "32 word"
  padding :: "32 word"
  xs1 :: "64 word"
  xs2 :: "64 word"

record cmd_resp_t =
  result :: "64 word"

text \<open>
  Modelled from the spec: \<open>sizeof(cmd_resp_t)\<close>; the struct is declared in the missing
  header, and the spec gives the response one field, the 64-bit result.
\<close>

definition sizeof_cmd_resp_t :: int where
  "sizeof_cmd_resp_t = 8"

datatype syscall =
    Sys_socket channel int
  | Sys_inet_pton int
  | Sys_connect channel int int
  | Sys_close int
  | Sys_send int cmd_req_t int
  | Sys_recv int int
  | Thread_detach channel

record SocketClient =
  cmd_sock_fd :: int
  dma_read_sock_fd :: int
  dma_write_sock_fd :: int
  socket_initialized :: bool
  dma_handler_running :: bool

definition SocketClient_ctor :: SocketClient where
  "SocketClient_ctor =
     \<lparr>cmd_sock_fd = -1, dma_read_sock_fd = -1, dma_write_sock_fd = -1,
      socket_initialized = False, dma_handler_running = False\<rparr>"

text \<open>What the system calls of one \<open>init()\<close> return.\<close>

record init_env =
  cmd_socket_ret :: int
  inet_pton_ret :: int
  cmd_connect_ret :: int
  dma_read_socket_ret :: int
  dma_read_connect_ret :: int
  dma_write_socket_ret :: int
  dma_write_connect_ret :: int

definition start_dma_handler :: "SocketClient \<Rightarrow> SocketClient \<times> syscall list" where
  "start_dma_handler s =
     (if dma_handler_running s then (s, [])
      else (s\<lparr>dma_handler_running := True\<rparr>, [Thread_detach DMA_READ, Thread_detach DMA_WRITE]))"

definition init :: "init_env \<Rightarrow> SocketClient \<Rightarrow> bool \<times> SocketClient \<times> syscall list" where
  "init env s =
     (if socket_initialized s then (True, s, [])
      else
        let s1 = s\<lparr>cmd_sock_fd := cmd_socket_ret env\<rparr>;
            e1 = [Sys_socket CMD (cmd_socket_ret env)]
        in if cmd_sock_fd s1 < 0 then (False, s1, e1)
        else
        let e2 = e1 @ [Sys_inet_pton (inet_pton_ret env)]
        in if inet_pton_ret env \<le> 0
           then (False, s1\<lparr>cmd_sock_fd := -1\<rparr>, e2 @ [Sys_close (cmd_sock_fd s1)])
        else
        let e3 = e2 @ [Sys_connect CMD (cmd_sock_fd s1) (cmd_connect_ret env)]
        in if cmd_connect_ret env < 0
           then (False, s1\<lparr>cmd_sock_fd := -1\<rparr>, e3 @ [Sys_close (cmd_sock_fd s1)])
        else
        let s2 = s1\<lparr>dma_read_sock_fd := dma_read_socket_ret env\<rparr>;
            e4 = e3 @ [Sys_socket DMA_READ (dma_read_socket_ret env)]
        in if dma_read_sock_fd s2 < 0
           then (False, s2\<lparr>cmd_sock_fd := -1\<rparr>, e4 @ [Sys_close (cmd_sock_fd s2)])
        else
        let e5 = e4 @ [Sys_connect DMA_READ (dma_read_sock_fd s2) (dma_read_connect_ret env)]
        in if dma_read_connect_ret env < 0
           then (False, s2\<lparr>cmd_sock_fd := -1, dma_read_sock_fd := -1\<rparr>,
                 e5 @ [Sys_close (cmd_sock_fd s2), Sys_close (dma_read_sock_fd s2)])
        else
        let s3 = s2\<lparr>dma_write_sock_fd := dma_write_socket_ret env\<rparr>;
            e6 = e5 @ [Sys_socket DMA_WRITE (dma_write_socket_ret env)]
        in if dma_write_sock_fd s3 < 0
           then (False, s3\<lparr>cmd_sock_fd := -1, dma_read_sock_fd := -1\<rparr>,
                 e6 @ [Sys_close (cmd_sock_fd s3), Sys_close (dma_read_sock_fd s3)])
        else
        let e7 = e6 @ [Sys_connect DMA_WRITE (dma_write_sock_fd s3) (dma_write_connect_ret env)]
        in if dma_write_connect_ret env < 0
           then (False, s3\<lparr>cmd_sock_fd := -1, dma_read_sock_fd := -1, dma_write_sock_fd := -1\<rparr>,
                 e7 @ [Sys_close (cmd_sock_fd s3), Sys_close (dma_read_sock_fd s3),
                       Sys_close (dma_write_sock_fd s3)])
        else
        let s4 = s3\<lparr>socket_initialized := True\<rparr>;
            (s5, e8) = start_dma_handler s4
        in (True, s5, e7 @ e8))"

definition close :: "SocketClient \<Rightarrow> SocketClient \<times> syscall list" where
  "close s =
     (let s0 = s\<lparr>dma_handler_running := False\<rparr>;
          (s1, e1) = (if cmd_sock_fd s0 \<ge> 0
                      then (s0\<lparr>cmd_sock_fd := -1\<rparr>, [Sys_close (cmd_sock_fd s0)])
                      else (s0, []));
          (s2, e2) = (if dma_read_sock_fd s1 \<ge> 0
                      then (s1\<lparr>dma_read_sock_fd := -1\<rparr>, e1 @ [Sys_close (dma_read_sock_fd s1)])
                      else (s1, e1));
          (s3, e3) = (if dma_write_sock_fd s2 \<ge> 0
                      then (s2\<lparr>dma_write_sock_fd := -1\<rparr>, e2 @ [Sys_close (dma_write_sock_fd s2)])
                      else (s2, e2))
      in (s3\<lparr>socket_initialized := False\<rparr>, e3))"



definition all_valid :: "SocketClient \<Rightarrow> bool" where
  "all_valid s \<longleftrightarrow> cmd_sock_fd s \<ge> 0 \<and> dma_read_sock_fd s \<ge> 0 \<and> dma_write_sock_fd s \<ge> 0"

definition all_invalid :: "SocketClient \<Rightarrow> bool" where
  "all_invalid s \<longleftrightarrow> cmd_sock_fd s < 0 \<and> dma_read_sock_fd s < 0 \<and> dma_write_sock_fd s < 0"

definition all_or_nothing :: "SocketClient \<Rightarrow> bool" where
  "all_or_nothing s \<longleftrightarrow>
     (if socket_initialized s then all_valid s else all_invalid s)"



subsection \<open>The command path\<close>

text \<open>
  \<open>send_cmd_request\<close> and \<open>recv_cmd_response\<close> take what \<open>send\<close> and \<open>recv\<close> returned;
  \<open>recv_cmd_response\<close> also takes the content of the buffer \<open>resp\<close> after the call and
  hands it back, as the source fills its reference argument.
\<close>

definition send_cmd_request :: "int \<Rightarrow> cmd_req_t \<Rightarrow> SocketClient \<Rightarrow> bool \<times> SocketClient \<times> syscall list" where
  "send_cmd_request sent req s =
     (if cmd_sock_fd s < 0 then (False, s, [])
      else if sent < 0
        then (let (s', ec) = close s in (False, s', Sys_send (cmd_sock_fd s) req sent # ec))
      else (True, s, [Sys_send (cmd_sock_fd s) req sent]))"

definition recv_cmd_response ::
  "int \<Rightarrow> cmd_resp_t \<Rightarrow> SocketClient \<Rightarrow> bool \<times> cmd_resp_t \<times> SocketClient \<times> syscall list" where
  "recv_cmd_response received resp s =
     (if cmd_sock_fd s < 0 then (False, resp, s, [])
      else if received < 0
        then (let (s', ec) = close s in (False, resp, s', Sys_recv (cmd_sock_fd s) received # ec))
      else if received = 0
        then (let (s', ec) = close s in (False, resp, s', Sys_recv (cmd_sock_fd s) received # ec))
      else if received < sizeof_cmd_resp_t
        then (let (s', ec) = close s in (False, resp, s', Sys_recv (cmd_sock_fd s) received # ec))
      else (True, resp, s, [Sys_recv (cmd_sock_fd s) received]))"

definition recv_header ::
  "int \<Rightarrow> msg_header_t \<Rightarrow> SocketClient \<Rightarrow> bool \<times> msg_header_t \<times> SocketClient \<times> syscall list" where
  "recv_header received hdr s =
     (if cmd_sock_fd s < 0 then (False, hdr, s, [])
      else if received < 0
        then (let (s', ec) = close s in (False, hdr, s', Sys_recv (cmd_sock_fd s) received # ec))
      else if received = 0
        then (let (s', ec) = close s in (False, hdr, s', Sys_recv (cmd_sock_fd s) received # ec))
      else (True, hdr, s, [Sys_recv (cmd_sock_fd s) received]))"

text \<open>What the environment does during one \<open>send_and_wait\<close>.\<close>

record dispatch_env =
  connect_env :: init_env
  send_ret :: int
  recv_ret :: int
  recv_buf :: cmd_resp_t

definition send_and_wait ::
  "dispatch_env \<Rightarrow> 32 word \<Rightarrow> 64 word \<Rightarrow> 64 word \<Rightarrow> SocketClient
     \<Rightarrow> 64 word \<times> SocketClient \<times> syscall list" where
  "send_and_wait env fn a b s =
     (let (ok0, s0, e0) =
            (if \<not> socket_initialized s then init (connect_env env) s else (True, s, []))
      in if \<not> ok0 then (0, s0, e0)
      else
        let cmd_req = \<lparr>header = \<lparr>msg_type = MSG_TYPE_CMD_REQ, reserved = 0\<rparr>,
                       funct = fn, padding = 0, xs1 = a, xs2 = b\<rparr>;
            (ok1, s1, e1) = send_cmd_request (send_ret env) cmd_req s0
        in if \<not> ok1 then (0, s1, e0 @ e1)
        else
          let (ok2, cmd_resp, s2, e2) = recv_cmd_response (recv_ret env) (recv_buf env) s1
          in if \<not> ok2 then (0, s2, e0 @ e1 @ e2)
          else (result cmd_resp, s2, e0 @ e1 @ e2))"

text \<open>Observations on a trace of system calls.\<close>

fun is_cmd_socket :: "syscall \<Rightarrow> bool" where
  "is_cmd_socket (Sys_socket CMD fd) = True"
| "is_cmd_socket _ = False"

fun is_connecting :: "syscall \<Rightarrow> bool" where
  "is_connecting (Sys_socket c fd) = True"
| "is_connecting (Sys_inet_pton r) = True"
| "is_connecting (Sys_connect c fd r) = True"
| "is_connecting _ = False"

fun is_send :: "syscall \<Rightarrow> bool" where
  "is_send (Sys_send fd req r) = True"
| "is_send _ = False"

fun sent_requests :: "syscall list \<Rightarrow> cmd_req_t list" where
  "sent_requests [] = []"
| "sent_requests (Sys_send fd req r # es) = req # sent_requests es"
| "sent_requests (_ # es) = sent_requests es"

definition connect_attempts :: "syscall list \<Rightarrow> nat" where
  "connect_attempts evs = length (filter is_cmd_socket evs)"

section \<open>The single-socket client of customext (socket.cc)\<close>

text \<open>
  The older client under \<open>customext/\<close> has one descriptor. Its struct \<open>socket_resp_t\<close>
  holds one \<open>uint64_t\<close>, so \<open>sizeof(socket_resp_t)\<close> is 8.
\<close>

record customext_SocketClient =
  sock_fd :: int
  customext_socket_initialized :: bool

record socket_resp_t =
  resp_result :: "64 word"

definition sizeof_socket_resp_t :: int where
  "sizeof_socket_resp_t = 8"

definition customext_close :: "customext_SocketClient \<Rightarrow> customext_SocketClient \<times> syscall list" where
  "customext_close s =
     (let (s1, e1) = (if sock_fd s \<ge> 0 then (s\<lparr>sock_fd := -1\<rparr>, [Sys_close (sock_fd s)]) else (s, []))
      in (s1\<lparr>customext_socket_initialized := False\<rparr>, e1))"

definition customext_recv_response ::
  "int \<Rightarrow> socket_resp_t \<Rightarrow> customext_SocketClient
     \<Rightarrow> bool \<times> socket_resp_t \<times> customext_SocketClient \<times> syscall list" where
  "customext_recv_response received resp s =
     (if sock_fd s < 0 then (False, resp, s, [])
      else if received < 0
        then (let (s', ec) = customext_close s in (False, resp, s', Sys_recv (sock_fd s) received # ec))
      else if received = 0
        then (let (s', ec) = customext_close s in (False, resp, s', Sys_recv (sock_fd s) received # ec))
      else (True, resp, s, [Sys_recv (sock_fd s) received]))"

section \<open>The DMA responder loops of host/ipc (socket.cc)\<close>

text \<open>
  Modelled from the spec: the DMA structs are declared in the missing header
  \<open>ipc/socket.h\<close>; the fields are the ones the loops and the callbacks read and assign,
  with the widths of the spec's table of wire records. The fields \<open>addr\<close>, \<open>size\<close>,
  \<open>header\<close> and \<open>reserved\<close> carry a prefix here, since record fields share one name
  space.
\<close>

record dma_data_128_t =
  lo :: "64 word"
  hi :: "64 word"

record dma_read_req_t =
  rd_addr :: "64 word"
  rd_size :: "32 word"

record dma_read_resp_t =
  rd_header :: msg_header_t
  data_lo :: "64 word"
  data_hi :: "64 word"

record dma_write_req_t =
  wr_addr :: "64 word"
  wr_data_lo :: "64 word"
  wr_data_hi :: "64 word"
  wr_size :: "32 word"

record dma_write_resp_t =
  wr_header :: msg_header_t
  wr_reserved :: "32 word"

text \<open>
  What one loop does, in order: a request arrived complete, the receive failed, the
  callback was invoked with its arguments, a response was handed to the send (with the
  send's success).
\<close>

datatype ('req, 'arg, 'resp) dma_event =
    Ev_recv 'req
  | Ev_recv_fail
  | Ev_callback 'arg
  | Ev_send 'resp bool

text \<open>
  \<open>abort()\<close> ends the process; a callback that reaches it returns no value.
\<close>

datatype fatal = Aborted

text \<open>
  How a loop was left: \<open>Exited\<close> when its condition was false or it reached \<open>break\<close>,
  \<open>Process_aborted\<close> when the callback ended the process inside a round, \<open>Awaiting\<close>
  when the observation ends with the thread blocked in the next receive.
\<close>

datatype loop_status = Exited | Process_aborted | Awaiting

text \<open>
  One round of the environment of a loop: whether the caller thread ran \<open>close()\<close> since
  the loop's last test of its condition, what the receive delivered (\<open>None\<close> when it
  failed) and whether the send succeeded.
\<close>

record 'req dma_step =
  caller_closed :: bool
  recv_outcome :: "'req option"
  send_ok :: bool

text \<open>
  The six functions the loops call, \<open>recv_dma_read_request\<close>, \<open>handle_dma_read\<close>,
  \<open>send_dma_read_response\<close> and their write-side twins, are defined in a file of the DMA
  path that is not among the sources. The installed callbacks are the lambdas of
  \<open>CUSTOMFN\<close>, which end the process on an unsupported size; a callback is therefore a
  function into \<open>fatal + _\<close>.
\<close>

text \<open>
  Modelled from the spec: \<open>recv_dma_read_request\<close> is missing. A receive delivers a
  complete request or fails (zero-length, negative-length or short read), and a failure
  closes the whole session.
\<close>

definition recv_dma_read_request ::
  "dma_read_req_t option \<Rightarrow> SocketClient \<Rightarrow> dma_read_req_t option \<times> SocketClient" where
  "recv_dma_read_request outcome s =
     (case outcome of None \<Rightarrow> (None, fst (close s)) | Some req \<Rightarrow> (Some req, s))"

text \<open>
  Modelled from the spec: \<open>handle_dma_read\<close> is missing. Servicing invokes the installed
  read callback with the address and the size of the request; the function returns what
  the callback returns, and here also the list of the invocations it made.
\<close>

definition handle_dma_read ::
  "(64 word \<Rightarrow> 32 word \<Rightarrow> fatal + dma_data_128_t) \<Rightarrow> 64 word \<Rightarrow> 32 word
     \<Rightarrow> (fatal + dma_data_128_t) \<times> (64 word \<times> 32 word) list" where
  "handle_dma_read dma_read_cb a n = (dma_read_cb a n, [(a, n)])"

text \<open>
  Modelled from the spec: \<open>send_dma_read_response\<close> is missing. A send failure closes the
  whole session.
\<close>

definition send_dma_read_response ::
  "bool \<Rightarrow> dma_read_resp_t \<Rightarrow> SocketClient \<Rightarrow> bool \<times> SocketClient" where
  "send_dma_read_response ok resp s = (if ok then (True, s) else (False, fst (close s)))"

text \<open>
  Modelled from the spec: \<open>recv_dma_write_request\<close> is missing; as on the read side.
\<close>

definition recv_dma_write_request ::
  "dma_write_req_t option \<Rightarrow> SocketClient \<Rightarrow> dma_write_req_t option \<times> SocketClient" where
  "recv_dma_write_request outcome s =
     (case outcome of None \<Rightarrow> (None, fst (close s)) | Some req \<Rightarrow> (Some req, s))"

text \<open>
  Modelled from the spec: \<open>handle_dma_write\<close> is missing. Servicing invokes the installed
  write callback with the address, the data and the size of the request; the callback
  changes the simulated memory. The function returns what the callback returns, and
  here also the list of the invocations it made.
\<close>

definition handle_dma_write ::
  "(64 word \<Rightarrow> dma_data_128_t \<Rightarrow> 32 word \<Rightarrow> 'mem \<Rightarrow> fatal + 'mem)
     \<Rightarrow> 64 word \<Rightarrow> dma_data_128_t \<Rightarrow> 32 word \<Rightarrow> 'mem
     \<Rightarrow> (fatal + 'mem) \<times> (64 word \<times> dma_data_128_t \<times> 32 word) list" where
  "handle_dma_write dma_write_cb a d n mem = (dma_write_cb a d n mem, [(a, d, n)])"

text \<open>
  Modelled from the spec: \<open>send_dma_write_response\<close> is missing; as on the read side.
\<close>

definition send_dma_write_response ::
  "bool \<Rightarrow> dma_write_resp_t \<Rightarrow> SocketClient \<Rightarrow> bool \<times> SocketClient" where
  "send_dma_write_response ok resp s = (if ok then (True, s) else (False, fst (close s)))"

type_synonym dma_read_event = "(dma_read_req_t, 64 word \<times> 32 word, dma_read_resp_t) dma_event"

type_synonym dma_write_event =
  "(dma_write_req_t, 64 word \<times> dma_data_128_t \<times> 32 word, dma_write_resp_t) dma_event"

text \<open>
  The loops. A callback that ends the process ends the loop inside the round: the
  request was received, the callback was entered, nothing is sent.
\<close>

fun dma_read_handler_thread ::
  "(64 word \<Rightarrow> 32 word \<Rightarrow> fatal + dma_data_128_t) \<Rightarrow> dma_read_req_t dma_step list
     \<Rightarrow> SocketClient \<Rightarrow> loop_status \<times> SocketClient \<times> dma_read_event list" where
  "dma_read_handler_thread cb [] s = (Awaiting, s, [])"
| "dma_read_handler_thread cb (st # rest) s =
     (let s0 = (if caller_closed st then fst (close s) else s)
      in if dma_handler_running s0 \<and> socket_initialized s0 \<and> dma_read_sock_fd s0 \<ge> 0
         then (case recv_dma_read_request (recv_outcome st) s0 of
                 (None, s1) \<Rightarrow> (Exited, s1, [Ev_recv_fail])
               | (Some dma_read_req, s1) \<Rightarrow>
                   (case handle_dma_read cb (rd_addr dma_read_req) (rd_size dma_read_req) of
                      (Inl Aborted, calls) \<Rightarrow>
                        (Process_aborted, s1, Ev_recv dma_read_req # map Ev_callback calls)
                    | (Inr read_data, calls) \<Rightarrow>
                        let dma_read_resp =
                              \<lparr>rd_header = \<lparr>msg_type = MSG_TYPE_DMA_READ_RESP, reserved = 0\<rparr>,
                               data_lo = lo read_data, data_hi = hi read_data\<rparr>;
                            evs = Ev_recv dma_read_req # map Ev_callback calls
                        in (case send_dma_read_response (send_ok st) dma_read_resp s1 of
                              (False, s2) \<Rightarrow> (Exited, s2, evs @ [Ev_send dma_read_resp False])
                            | (True, s2) \<Rightarrow>
                                (case dma_read_handler_thread cb rest s2 of
                                   (fin, s3, later) \<Rightarrow>
                                     (fin, s3, evs @ [Ev_send dma_read_resp True] @ later)))))
         else (Exited, s0, []))"

fun dma_write_handler_thread ::
  "(64 word \<Rightarrow> dma_data_128_t \<Rightarrow> 32 word \<Rightarrow> 'mem \<Rightarrow> fatal + 'mem)
     \<Rightarrow> dma_write_req_t dma_step list \<Rightarrow> SocketClient \<times> 'mem
     \<Rightarrow> loop_status \<times> (SocketClient \<times> 'mem) \<times> dma_write_event list" where
  "dma_write_handler_thread cb [] (s, mem) = (Awaiting, (s, mem), [])"
| "dma_write_handler_thread cb (st # rest) (s, mem) =
     (let s0 = (if caller_closed st then fst (close s) else s)
      in if dma_handler_running s0 \<and> socket_initialized s0 \<and> dma_write_sock_fd s0 \<ge> 0
         then (case recv_dma_write_request (recv_outcome st) s0 of
                 (None, s1) \<Rightarrow> (Exited, (s1, mem), [Ev_recv_fail])
               | (Some dma_write_req, s1) \<Rightarrow>
                   let write_data = \<lparr>lo = wr_data_lo dma_write_req, hi = wr_data_hi dma_write_req\<rparr>
                   in (case handle_dma_write cb (wr_addr dma_write_req) write_data
                              (wr_size dma_write_req) mem of
                         (Inl Aborted, calls) \<Rightarrow>
                           (Process_aborted, (s1, mem), Ev_recv dma_write_req # map Ev_callback calls)
                       | (Inr mem', calls) \<Rightarrow>
                           let dma_write_resp =
                                 \<lparr>wr_header = \<lparr>msg_type = MSG_TYPE_DMA_WRITE_RESP, reserved = 0\<rparr>,
                                  wr_reserved = 0\<rparr>;
                               evs = Ev_recv dma_write_req # map Ev_callback calls
                           in (case send_dma_write_response (send_ok st) dma_write_resp s1 of
                                 (False, s2) \<Rightarrow>
                                   (Exited, (s2, mem'), evs @ [Ev_send dma_write_resp False])
                               | (True, s2) \<Rightarrow>
                                   (case dma_write_handler_thread cb rest (s2, mem') of
                                      (fin, sm, later) \<Rightarrow>
                                        (fin, sm, evs @ [Ev_send dma_write_resp True] @ later)))))
         else (Exited, (s0, mem), []))"

text \<open>
  The claimed shape of a loop's trace, after the claim's words: rounds of one received
  request, one callback invocation for that request and one response, in this order; a
  failed receive or a failed send is the last event.
\<close>

fun responder_rounds :: "('req \<Rightarrow> 'arg) \<Rightarrow> ('req, 'arg, 'resp) dma_event list \<Rightarrow> bool" where
  "responder_rounds f [] = True"
| "responder_rounds f [Ev_recv_fail] = True"
| "responder_rounds f (Ev_recv req # Ev_callback a # Ev_send resp ok # rest) =
     (a = f req \<and> (if ok then responder_rounds f rest else rest = []))"
| "responder_rounds f _ = False"

text \<open>
  The shape the loops have: as claimed, and a trace may also end inside a round, after
  the callback invocation, when the callback ended the process.
\<close>

fun responder_rounds_or_abort ::
  "('req \<Rightarrow> 'arg) \<Rightarrow> ('req, 'arg, 'resp) dma_event list \<Rightarrow> bool" where
  "responder_rounds_or_abort f [] = True"
| "responder_rounds_or_abort f [Ev_recv_fail] = True"
| "responder_rounds_or_abort f [Ev_recv req, Ev_callback a] = (a = f req)"
| "responder_rounds_or_abort f (Ev_recv req # Ev_callback a # Ev_send resp ok # rest) =
     (a = f req \<and> (if ok then responder_rounds_or_abort f rest else rest = []))"
| "responder_rounds_or_abort f _ = False"

fun is_failure :: "('req, 'arg, 'resp) dma_event \<Rightarrow> bool" where
  "is_failure Ev_recv_fail = True"
| "is_failure (Ev_send resp ok) = (\<not> ok)"
| "is_failure _ = False"

definition read_args :: "dma_read_req_t \<Rightarrow> 64 word \<times> 32 word" where
  "read_args req = (rd_addr req, rd_size req)"

definition write_args :: "dma_write_req_t \<Rightarrow> 64 word \<times> dma_data_128_t \<times> 32 word" where
  "write_args req = (wr_addr req, \<lparr>lo = wr_data_lo req, hi = wr_data_hi req\<rparr>, wr_size req)"

text \<open>The loop conditions, and a step of the environment that delivers a request.\<close>

definition read_loop_cond :: "SocketClient \<Rightarrow> bool" where
  "read_loop_cond s \<longleftrightarrow> dma_handler_running s \<and> socket_initialized s \<and> dma_read_sock_fd s \<ge> 0"

definition write_loop_cond :: "SocketClient \<Rightarrow> bool" where
  "write_loop_cond s \<longleftrightarrow> dma_handler_running s \<and> socket_initialized s \<and> dma_write_sock_fd s \<ge> 0"

definition deliver :: "'req \<Rightarrow> 'req dma_step" where
  "deliver req = \<lparr>caller_closed = False, recv_outcome = Some req, send_ok = True\<rparr>"

definition deliver_unsent :: "'req \<Rightarrow> 'req dma_step" where
  "deliver_unsent req = \<lparr>caller_closed = False, recv_outcome = Some req, send_ok = False\<rparr>"

definition recv_failure :: "'req dma_step" where
  "recv_failure = \<lparr>caller_closed = False, recv_outcome = None, send_ok = True\<rparr>"

text \<open>
  The events of one round, after the claim's words: the request received, the callback
  invoked once with the request's arguments and, when the callback returned, the
  response built from its value handed to the send.
\<close>

definition read_resp :: "dma_data_128_t \<Rightarrow> dma_read_resp_t" where
  "read_resp v = \<lparr>rd_header = \<lparr>msg_type = MSG_TYPE_DMA_READ_RESP, reserved = 0\<rparr>,
                   data_lo = lo v, data_hi = hi v\<rparr>"

definition write_resp :: dma_write_resp_t where
  "write_resp = \<lparr>wr_header = \<lparr>msg_type = MSG_TYPE_DMA_WRITE_RESP, reserved = 0\<rparr>,
                  wr_reserved = 0\<rparr>"

definition read_round ::
  "(64 word \<Rightarrow> 32 word \<Rightarrow> fatal + dma_data_128_t) \<Rightarrow> bool \<Rightarrow> dma_read_req_t
     \<Rightarrow> dma_read_event list" where
  "read_round cb sent req =
     (case cb (rd_addr req) (rd_size req) of
        Inl _ \<Rightarrow> [Ev_recv req, Ev_callback (read_args req)]
      | Inr v \<Rightarrow> [Ev_recv req, Ev_callback (read_args req), Ev_send (read_resp v) sent])"

definition write_round :: "bool \<Rightarrow> dma_write_req_t \<Rightarrow> dma_write_event list" where
  "write_round sent req = [Ev_recv req, Ev_callback (write_args req), Ev_send write_resp sent]"

text \<open>The memory after the write callback has served a list of requests in order.\<close>

fun apply_writes ::
  "(64 word \<Rightarrow> dma_data_128_t \<Rightarrow> 32 word \<Rightarrow> 'mem \<Rightarrow> fatal + 'mem)
     \<Rightarrow> dma_write_req_t list \<Rightarrow> 'mem \<Rightarrow> fatal + 'mem" where
  "apply_writes cb [] mem = Inr mem"
| "apply_writes cb (req # reqs) mem =
     (case cb (wr_addr req) \<lparr>lo = wr_data_lo req, hi = wr_data_hi req\<rparr> (wr_size req) mem of
        Inl e \<Rightarrow> Inl e
      | Inr mem' \<Rightarrow> apply_writes cb reqs mem')"

section \<open>The memory access adapter of the Spike extension (bebop.cc)\<close>

text \<open>
  The simulated memory is byte-addressable with 64-bit addresses (\<open>reg_t\<close>); the loads and
  stores of the MMU are taken as total. \<open>read_from_dram<T>\<close> and \<open>write_to_dram<T>\<close> are
  templates over the unsigned type \<open>T\<close>, here a word of any length, with
  \<open>sizeof(T) = LENGTH('a) div 8\<close>; the \<open>for\<close> loop over \<open>byte_idx\<close> is a fold over
  \<open>[0..<sizeof(T)]\<close>. Address arithmetic wraps at 64 bits.
\<close>

type_synonym reg_t = "64 word"

type_synonym mmu_t = "reg_t \<Rightarrow> 8 word"

definition read_from_dram :: "mmu_t \<Rightarrow> reg_t \<Rightarrow> 'a::len word" where
  "read_from_dram m a =
     fold (\<lambda>byte_idx v. v OR push_bit (byte_idx * 8) (ucast (m (a + of_nat byte_idx))))
       [0..<LENGTH('a) div 8] 0"

definition write_to_dram :: "mmu_t \<Rightarrow> reg_t \<Rightarrow> 'a::len word \<Rightarrow> mmu_t" where
  "write_to_dram m a d =
     fold (\<lambda>byte_idx m'. m'(a + of_nat byte_idx := ucast (drop_bit (byte_idx * 8) d AND 0xFF)))
       [0..<LENGTH('a) div 8] m"

definition read_cb :: "mmu_t \<Rightarrow> 64 word \<Rightarrow> 32 word \<Rightarrow> fatal + dma_data_128_t" where
  "read_cb m a n =
     (if n = 1 then Inr \<lparr>lo = ucast (read_from_dram m a :: 8 word), hi = 0\<rparr>
      else if n = 2 then Inr \<lparr>lo = ucast (read_from_dram m a :: 16 word), hi = 0\<rparr>
      else if n = 4 then Inr \<lparr>lo = ucast (read_from_dram m a :: 32 word), hi = 0\<rparr>
      else if n = 8 then Inr \<lparr>lo = read_from_dram m a, hi = 0\<rparr>
      else if n = 16 then Inr \<lparr>lo = read_from_dram m a, hi = read_from_dram m (a + 8)\<rparr>
      else Inl Aborted)"

definition write_cb :: "mmu_t \<Rightarrow> 64 word \<Rightarrow> dma_data_128_t \<Rightarrow> 32 word \<Rightarrow> fatal + mmu_t" where
  "write_cb m a d n =
     (if n = 1 then Inr (write_to_dram m a (ucast (lo d) :: 8 word))
      else if n = 2 then Inr (write_to_dram m a (ucast (lo d) :: 16 word))
      else if n = 4 then Inr (write_to_dram m a (ucast (lo d) :: 32 word))
      else if n = 8 then Inr (write_to_dram m a (lo d))
      else if n = 16 then Inr (write_to_dram (write_to_dram m a (lo d)) (a + 8) (hi d))
      else Inl Aborted)"

text \<open>
  The claimed value of a read, after the claim's words: byte \<open>i\<close> of the range contributes
  its value shifted left by \<open>8 * i\<close>.
\<close>

definition bytes_at :: "mmu_t \<Rightarrow> reg_t \<Rightarrow> nat \<Rightarrow> 8 word list" where
  "bytes_at m a w = map (\<lambda>i. m (a + of_nat i)) [0..<w]"

definition le_compose :: "8 word list \<Rightarrow> nat" where
  "le_compose bs = (\<Sum>i\<leftarrow>[0..<length bs]. push_bit (8 * i) (unat (bs ! i)))"

definition supported_width :: "32 word \<Rightarrow> bool" where
  "supported_width n \<longleftrightarrow> n = 1 \<or> n = 2 \<or> n = 4 \<or> n = 8 \<or> n = 16"

text \<open>A value is representable in \<open>n\<close> bytes, \<open>n\<close> a supported width.\<close>

definition representable :: "dma_data_128_t \<Rightarrow> 32 word \<Rightarrow> bool" where
  "representable d n \<longleftrightarrow> n = 16 \<or> (hi d = 0 \<and> unat (lo d) < 2 ^ (8 * unat n))"

section \<open>The instruction hook of the Spike extension (bebop.cc)\<close>

text \<open>
  \<open>rocc_insn_t\<close>, the register file and the commit log belong to Spike and are not among
  the sources. The decoded instruction is a record of the bit fields the hook reads
  (\<open>insn.rs1()\<close>, \<open>insn.rs2()\<close> and \<open>insn.rd()\<close> are the fields \<open>rs1\<close>, \<open>rs2\<close> and \<open>rd\<close> of the
  same instruction word); the write operation of the register file is a parameter of
  the hook.
\<close>

record rocc_insn_t =
  insn_rd :: "5 word"
  insn_xs2 :: bool
  insn_xs1 :: bool
  insn_xd :: bool
  insn_rs1 :: "5 word"
  insn_rs2 :: "5 word"
  insn_funct :: "7 word"

record state_t =
  XPR :: "5 word \<Rightarrow> reg_t"
  log_reg_write :: "reg_t \<rightharpoonup> (64 word \<times> 64 word)"

record bebop_state_t =
  enable :: bool
  resetted :: bool

record bebop_t =
  bebop_state :: bebop_state_t
  socket_client :: SocketClient

definition reset :: "bebop_state_t \<Rightarrow> bebop_state_t" where
  "reset b = b\<lparr>enable := True, resetted := True\<rparr>"

text \<open>
  \<open>CUSTOMFN(XCUSTOM_ACC)\<close>: the two callbacks it installs are \<open>read_cb\<close> and \<open>write_cb\<close>
  above, bound to the processor's memory; the responder loops take them as parameters.
\<close>

definition CUSTOMFN ::
  "dispatch_env \<Rightarrow> bebop_t \<Rightarrow> rocc_insn_t \<Rightarrow> reg_t \<Rightarrow> reg_t \<Rightarrow> reg_t \<times> bebop_t \<times> syscall list" where
  "CUSTOMFN env b insn a1 a2 =
     (let b1 = (if \<not> resetted (bebop_state b) then b\<lparr>bebop_state := reset (bebop_state b)\<rparr> else b);
          (res, c, evs) = send_and_wait env (ucast (insn_funct insn)) a1 a2 (socket_client b1)
      in (res, b1\<lparr>socket_client := c\<rparr>, evs))"

definition bebop_custom ::
  "((5 word \<Rightarrow> reg_t) \<Rightarrow> 5 word \<Rightarrow> reg_t \<Rightarrow> (5 word \<Rightarrow> reg_t)) \<Rightarrow> dispatch_env
     \<Rightarrow> bebop_t \<times> state_t \<Rightarrow> rocc_insn_t \<Rightarrow> reg_t
     \<Rightarrow> reg_t \<times> (bebop_t \<times> state_t) \<times> syscall list" where
  "bebop_custom XPR_write env p insn pc =
     (let bebop = fst p; state = snd p;
          a1 = (if insn_xs1 insn then XPR state (insn_rs1 insn) else - 1);
          a2 = (if insn_xs2 insn then XPR state (insn_rs2 insn) else - 1);
          (xd, bebop', evs) = CUSTOMFN env bebop insn a1 a2;
          state' = (if insn_xd insn
                    then state\<lparr>log_reg_write :=
                                  (log_reg_write state)(push_bit 4 (ucast (insn_rd insn)) \<mapsto> (xd, 0)),
                                XPR := XPR_write (XPR state) (insn_rd insn) xd\<rparr>
                    else state)
      in (pc + 4, (bebop', state'), evs))"

section \<open>Derived notions used in the statements and proofs\<close>


text \<open>The request record \<open>send_and_wait\<close> builds from its arguments.\<close>

definition the_request :: "32 word \<Rightarrow> 64 word \<Rightarrow> 64 word \<Rightarrow> cmd_req_t" where
  "the_request fn a b = \<lparr>header = \<lparr>msg_type = MSG_TYPE_CMD_REQ, reserved = 0\<rparr>,
                          funct = fn, padding = 0, xs1 = a, xs2 = b\<rparr>"

text \<open>
  The send and the receive of \<open>send_and_wait\<close> on a connected command channel, in one
  piece; \<open>send_and_wait\<close> is shown to unfold to it.
\<close>

definition exchange ::
  "dispatch_env \<Rightarrow> cmd_req_t \<Rightarrow> SocketClient \<Rightarrow> 64 word \<times> SocketClient \<times> syscall list" where
  "exchange env req s =
     (if send_ret env < 0
        then (0, fst (close s), Sys_send (cmd_sock_fd s) req (send_ret env) # snd (close s))
      else if recv_ret env < sizeof_cmd_resp_t
        then (0, fst (close s),
              [Sys_send (cmd_sock_fd s) req (send_ret env), Sys_recv (cmd_sock_fd s) (recv_ret env)]
                @ snd (close s))
      else (result (recv_buf env), s,
            [Sys_send (cmd_sock_fd s) req (send_ret env), Sys_recv (cmd_sock_fd s) (recv_ret env)]))"

text \<open>Concrete environments and inputs for the examples.\<close>

definition env_ok :: init_env where
  "env_ok = \<lparr>cmd_socket_ret = 3, inet_pton_ret = 1, cmd_connect_ret = 0,
              dma_read_socket_ret = 4, dma_read_connect_ret = 0,
              dma_write_socket_ret = 5, dma_write_connect_ret = 0\<rparr>"


definition dispatch_ok :: dispatch_env where
  "dispatch_ok = \<lparr>connect_env = env_ok, send_ret = 32, recv_ret = 8, recv_buf = \<lparr>result = 42\<rparr>\<rparr>"

definition connected :: SocketClient where
  "connected = \<lparr>cmd_sock_fd = 3, dma_read_sock_fd = 4, dma_write_sock_fd = 5,
                 socket_initialized = True, dma_handler_running = True\<rparr>"

definition sample_mem :: mmu_t where
  "sample_mem = (\<lambda>_. 0)(0x1000 := 0x34, 0x1001 := 0x12)"

text \<open>The write callback as installed: \<open>write_cb\<close> bound to the processor's memory.\<close>

definition installed_write_cb ::
  "64 word \<Rightarrow> dma_data_128_t \<Rightarrow> 32 word \<Rightarrow> mmu_t \<Rightarrow> fatal + mmu_t" where
  "installed_write_cb a d n m = write_cb m a d n"

definition sample_insn :: rocc_insn_t where
  "sample_insn = \<lparr>insn_rd = 10, insn_xs2 = False, insn_xs1 = True, insn_xd = True,
                   insn_rs1 = 11, insn_rs2 = 12, insn_funct = 24\<rparr>"

definition sample_state :: state_t where
  "sample_state = \<lparr>XPR = (\<lambda>_. 0)(11 := 0x1000), log_reg_write = Map.empty\<rparr>"

definition sample_bebop :: bebop_t where
  "sample_bebop = \<lparr>bebop_state = \<lparr>enable = False, resetted = False\<rparr>,
                    socket_client = SocketClient_ctor\<rparr>"

section \<open>Session lifecycle\<close>

lemma all_or_nothing_ctor: "all_or_nothing SocketClient_ctor"
  by (simp add: all_or_nothing_def all_invalid_def SocketClient_ctor_def)


lemma all_or_nothing_init:
  assumes "all_or_nothing s"
  shows "all_or_nothing (fst (snd (init env s)))"
  using assms
  by (simp add: init_def start_dma_handler_def all_or_nothing_def all_invalid_def all_valid_def
      Let_def split: prod.splits if_splits)



lemma close_events:
  "snd (close s) =
     map Sys_close (filter (\<lambda>fd. fd \<ge> 0) [cmd_sock_fd s, dma_read_sock_fd s, dma_write_sock_fd s])"
  by (simp add: close_def Let_def split: prod.splits)

lemma close_closes:
  "\<not> socket_initialized (fst (close s))" "all_invalid (fst (close s))"
  "\<not> dma_handler_running (fst (close s))"
  by (simp_all add: close_def all_invalid_def Let_def split: prod.splits)

lemma close_quiet:
  "filter is_cmd_socket (snd (close s)) = []" "filter is_connecting (snd (close s)) = []"
  "sent_requests (snd (close s)) = []"
  by (simp_all add: close_events)

lemma close_sends_nothing: "close s = (s', ec) \<Longrightarrow> sent_requests ec = []"
  using close_quiet(3) [of s] by simp

lemma init_trace:
  assumes "\<not> socket_initialized s" and "init env s = (ok, s', evs)"
  shows "connect_attempts evs = 1" and "filter is_send evs = []" and "sent_requests evs = []"
  using assms
  by (auto simp add: init_def start_dma_handler_def connect_attempts_def Let_def
      split: prod.splits if_splits)

lemma init_success:
  assumes "init env s = (True, s', evs)" and "all_or_nothing s"
  shows "socket_initialized s'" and "cmd_sock_fd s' \<ge> 0"
proof -
  have "all_or_nothing (fst (snd (init env s)))"
    using assms(2) by (rule all_or_nothing_init)
  moreover show "socket_initialized s'"
    using assms(1)
    by (auto simp add: init_def start_dma_handler_def Let_def split: prod.splits if_splits)
  ultimately show "cmd_sock_fd s' \<ge> 0"
    using assms(1) by (simp add: all_or_nothing_def all_valid_def)
qed




text \<open>
  Claim C8. After \<open>close()\<close> the session is not ready, the three descriptors are invalid
  and \<open>dma_handler_running\<close> is cleared; a second \<open>close()\<close> issues no system call and
  leaves that state as it is.
\<close>

theorem close_idempotent:
  "\<not> socket_initialized (fst (close s)) \<and> all_invalid (fst (close s))
   \<and> \<not> dma_handler_running (fst (close s))
   \<and> close (fst (close s)) = (fst (close s), [])"
  by (simp add: close_def all_invalid_def Let_def split: prod.splits)

section \<open>Command dispatch\<close>

lemma send_cmd_request_connected:
  assumes "cmd_sock_fd s \<ge> 0"
  shows "send_cmd_request n req s =
     (if n < 0 then (False, fst (close s), Sys_send (cmd_sock_fd s) req n # snd (close s))
      else (True, s, [Sys_send (cmd_sock_fd s) req n]))"
  using assms by (simp add: send_cmd_request_def split: prod.splits)

lemma recv_cmd_response_connected:
  assumes "cmd_sock_fd s \<ge> 0"
  shows "recv_cmd_response n resp s =
     (if n < sizeof_cmd_resp_t
      then (False, resp, fst (close s), Sys_recv (cmd_sock_fd s) n # snd (close s))
      else (True, resp, s, [Sys_recv (cmd_sock_fd s) n]))"
  using assms
  by (auto simp add: recv_cmd_response_def sizeof_cmd_resp_t_def split: prod.splits)

lemma send_and_wait_unfold:
  assumes "all_or_nothing s"
  shows "send_and_wait env fn a b s =
     (if socket_initialized s then exchange env (the_request fn a b) s
      else case init (connect_env env) s of
             (False, s0, e0) \<Rightarrow> (0, s0, e0)
           | (True, s0, e0) \<Rightarrow>
               (case exchange env (the_request fn a b) s0 of (r, s1, e1) \<Rightarrow> (r, s1, e0 @ e1)))"
proof (cases "socket_initialized s")
  case True
  with assms have "cmd_sock_fd s \<ge> 0" by (simp add: all_or_nothing_def all_valid_def)
  with True show ?thesis
    by (simp add: send_and_wait_def exchange_def the_request_def
        send_cmd_request_connected recv_cmd_response_connected)
next
  case False
  obtain ok s0 e0 where i: "init (connect_env env) s = (ok, s0, e0)"
    by (metis prod_cases3)
  show ?thesis
  proof (cases ok)
    case True
    with i have "init (connect_env env) s = (True, s0, e0)" by simp
    then have "cmd_sock_fd s0 \<ge> 0" using assms by (rule init_success(2))
    with True False i show ?thesis
      by (simp add: send_and_wait_def exchange_def the_request_def
          send_cmd_request_connected recv_cmd_response_connected)
  next
    case f: False
    with False i show ?thesis by (simp add: send_and_wait_def)
  qed
qed

lemma exchange_result:
  assumes "exchange env req s = (r, s', evs)"
  shows "sent_requests evs = [req]"
    and "filter is_cmd_socket evs = []"
    and "filter is_connecting evs = []"
    and "send_ret env < 0 \<or> recv_ret env < sizeof_cmd_resp_t
           \<longrightarrow> r = 0 \<and> \<not> socket_initialized s' \<and> all_invalid s'"
    and "\<not> (send_ret env < 0 \<or> recv_ret env < sizeof_cmd_resp_t)
           \<longrightarrow> r = result (recv_buf env) \<and> s' = s"
  using assms
  by (auto simp add: exchange_def close_quiet close_closes split: if_splits)


lemma sent_requests_append: "sent_requests (xs @ ys) = sent_requests xs @ sent_requests ys"
  by (induction xs rule: sent_requests.induct) simp_all

lemma init_sends_nothing: "init env s = (ok, s', evs) \<Longrightarrow> sent_requests evs = []"
  by (cases "socket_initialized s") (auto simp: init_trace(3), simp add: init_def)

lemma send_cmd_request_sent:
  "send_cmd_request n req s = (ok, s', evs) \<Longrightarrow> set (sent_requests evs) \<subseteq> {req}"
  by (auto simp add: send_cmd_request_def split: if_splits prod.splits dest: close_sends_nothing)

lemma recv_cmd_response_sent:
  "recv_cmd_response n resp s = (ok, resp', s', evs) \<Longrightarrow> sent_requests evs = []"
  by (auto simp add: recv_cmd_response_def split: if_splits prod.splits dest: close_sends_nothing)

lemma send_and_wait_sent:
  assumes "send_and_wait env fn a b s = (r, s', evs)"
  shows "set (sent_requests evs) \<subseteq> {the_request fn a b}"
proof -
  obtain ok0 s0 e0 where i:
    "(if \<not> socket_initialized s then init (connect_env env) s else (True, s, [])) = (ok0, s0, e0)"
    by (metis prod_cases3)
  then have e0: "sent_requests e0 = []"
    by (auto split: if_splits dest: init_sends_nothing)
  obtain ok1 s1 e1
    where snd: "send_cmd_request (send_ret env) (the_request fn a b) s0 = (ok1, s1, e1)"
    by (metis prod_cases3)
  obtain ok2 resp s2 e2
    where rcv: "recv_cmd_response (recv_ret env) (recv_buf env) s1 = (ok2, resp, s2, e2)"
    by (metis prod_cases4)
  have "evs = e0 \<or> evs = e0 @ e1 \<or> evs = e0 @ e1 @ e2"
    using assms i snd rcv
    by (auto simp add: send_and_wait_def the_request_def Let_def split: if_splits)
  then show ?thesis
    using e0 send_cmd_request_sent [OF snd] recv_cmd_response_sent [OF rcv]
    by (auto simp add: sent_requests_append)
qed


lemma dispatch_ok_run:
  "send_and_wait dispatch_ok 24 0x1000 7 SocketClient_ctor =
     (42, connected,
      [Sys_socket CMD 3, Sys_inet_pton 1, Sys_connect CMD 3 0,
       Sys_socket DMA_READ 4, Sys_connect DMA_READ 4 0,
       Sys_socket DMA_WRITE 5, Sys_connect DMA_WRITE 5 0,
       Thread_detach DMA_READ, Thread_detach DMA_WRITE,
       Sys_send 3 (the_request 24 0x1000 7) 32, Sys_recv 3 8])"
  by (simp add: send_and_wait_def init_def start_dma_handler_def send_cmd_request_def
      recv_cmd_response_def sizeof_cmd_resp_t_def dispatch_ok_def env_ok_def connected_def
      SocketClient_ctor_def the_request_def Let_def)


text \<open>
  Claim C9. The record a call of \<open>send_and_wait\<close> hands to \<open>send\<close> has the tag
  \<open>MSG_TYPE_CMD_REQ\<close>, a zero \<open>reserved\<close> field, the function selector, a zero \<open>padding\<close>
  field and the two operands as given; it is sent once when the command channel is
  connected and not at all when the connection attempt fails. The records of two calls
  with equal arguments are equal, whatever the sessions and the environments.
\<close>

theorem request_encoding:
  assumes "all_or_nothing s" and "send_and_wait env fn a b s = (r, s', evs)"
    and "send_and_wait env2 fn a b s2 = (r2, s2', evs2)"
  shows "sent_requests evs =
           (if socket_initialized s \<or> fst (init (connect_env env) s)
            then [\<lparr>header = \<lparr>msg_type = MSG_TYPE_CMD_REQ, reserved = 0\<rparr>,
                   funct = fn, padding = 0, xs1 = a, xs2 = b\<rparr>]
            else [])
         \<and> (\<forall>x \<in> set (sent_requests evs). \<forall>y \<in> set (sent_requests evs2). x = y)"
proof
  show "sent_requests evs =
           (if socket_initialized s \<or> fst (init (connect_env env) s)
            then [\<lparr>header = \<lparr>msg_type = MSG_TYPE_CMD_REQ, reserved = 0\<rparr>,
                   funct = fn, padding = 0, xs1 = a, xs2 = b\<rparr>]
            else [])"
  proof (cases "socket_initialized s")
    case True
    with assms have "exchange env (the_request fn a b) s = (r, s', evs)"
      by (simp add: send_and_wait_unfold)
    from exchange_result(1) [OF this] True show ?thesis by (simp add: the_request_def)
  next
    case False
    obtain ok s0 e0 where i: "init (connect_env env) s = (ok, s0, e0)"
      by (metis prod_cases3)
    show ?thesis
    proof (cases ok)
      case f: False
      with False i assms have "evs = e0" by (simp add: send_and_wait_unfold)
      with False i f init_trace(3) [OF False i] show ?thesis by simp
    next
      case True
      obtain e1 where ex: "exchange env (the_request fn a b) s0 = (r, s', e1)"
        and evs: "evs = e0 @ e1"
        using False i True assms by (auto simp add: send_and_wait_unfold split: prod.splits)
      with False i True init_trace(3) [OF False i] exchange_result(1) [OF ex] show ?thesis
        by (simp add: sent_requests_append the_request_def)
    qed
  qed
  show "\<forall>x \<in> set (sent_requests evs). \<forall>y \<in> set (sent_requests evs2). x = y"
    using send_and_wait_sent [OF assms(2)] send_and_wait_sent [OF assms(3)] by auto
qed

theorem request_encoding_witness:
  "all_or_nothing SocketClient_ctor
   \<and> sent_requests (snd (snd (send_and_wait dispatch_ok 24 0x1000 7 SocketClient_ctor)))
       = [\<lparr>header = \<lparr>msg_type = MSG_TYPE_CMD_REQ, reserved = 0\<rparr>,
           funct = 24, padding = 0, xs1 = 0x1000, xs2 = 7\<rparr>]"
proof -
  have "fst (init env_ok SocketClient_ctor)"
    by (simp add: init_def start_dma_handler_def env_ok_def SocketClient_ctor_def Let_def)
  with request_encoding [OF all_or_nothing_ctor dispatch_ok_run dispatch_ok_run]
  have "the_request 24 0x1000 7 =
          \<lparr>header = \<lparr>msg_type = MSG_TYPE_CMD_REQ, reserved = 0\<rparr>,
           funct = 24, padding = 0, xs1 = 0x1000, xs2 = 7\<rparr>"
    by (simp add: dispatch_ok_def)
  then show ?thesis
    using all_or_nothing_ctor by (simp add: dispatch_ok_run)
qed

section \<open>The memory access adapter\<close>

lemma byte_index: "n * 8 \<le> k \<and> k - n * 8 < 8 \<longleftrightarrow> k div 8 = (n::nat)"
  by auto

lemma byte_offset: "k div 8 = n \<Longrightarrow> k - n * 8 = k mod (8::nat)"
  by (auto simp: minus_mult_div_eq_mod mult.commute)

lemma read_fold_bit:
  "bit (fold (\<lambda>i v. v OR push_bit (i * 8) (ucast (m (a + of_nat i)))) [0..<n] (0::'a::len word)) k
     \<longleftrightarrow> k < LENGTH('a) \<and> k div 8 < n \<and> bit ((m (a + of_nat (k div 8))) :: 8 word) (k mod 8)"
proof (induction n)
  case 0
  then show ?case by simp
next
  case (Suc n)
  let ?b = "m (a + of_nat n)"
  have new: "bit (push_bit (n * 8) (ucast ?b) :: 'a word) k
      \<longleftrightarrow> k < LENGTH('a) \<and> k div 8 = n \<and> bit ?b (k mod 8)"
  proof -
    have "bit (push_bit (n * 8) (ucast ?b) :: 'a word) k
      \<longleftrightarrow> k < LENGTH('a) \<and> n * 8 \<le> k \<and> k - n * 8 < 8 \<and> bit ?b (k - n * 8)"
      by (auto simp add: bit_simps dest: bit_imp_le_length)
    also have "\<dots> \<longleftrightarrow> k < LENGTH('a) \<and> k div 8 = n \<and> bit ?b (k mod 8)"
      using byte_index [of n k] byte_offset [of k n] by auto
    finally show ?thesis .
  qed
  have "bit (fold (\<lambda>i v. v OR push_bit (i * 8) (ucast (m (a + of_nat i)))) [0..<Suc n] (0::'a word)) k
     \<longleftrightarrow> bit (fold (\<lambda>i v. v OR push_bit (i * 8) (ucast (m (a + of_nat i)))) [0..<n] (0::'a word)) k
       \<or> bit (push_bit (n * 8) (ucast ?b) :: 'a word) k"
    by (simp add: bit_or_iff)
  then show ?case
    unfolding Suc.IH new by (auto simp: less_Suc_eq)
qed

lemma read_from_dram_bit:
  "bit (read_from_dram m a :: 'a::len word) k
     \<longleftrightarrow> k < LENGTH('a) \<and> k div 8 < LENGTH('a) div 8 \<and> bit (m (a + of_nat (k div 8))) (k mod 8)"
  unfolding read_from_dram_def by (rule read_fold_bit)

lemma of_nat_neq_64:
  fixes a :: "64 word"
  assumes "i < j" "j < 2 ^ 64"
  shows "a + of_nat i \<noteq> a + of_nat j"
proof -
  have "(of_nat i :: 64 word) \<noteq> of_nat j"
    using assms by (simp add: word_of_nat_eq_iff take_bit_nat_eq_self)
  then show ?thesis by simp
qed

lemma write_fold_at:
  fixes a :: "64 word" and d :: "'a::len word"
  assumes "j < n" "n \<le> 2 ^ 64"
  shows "fold (\<lambda>i m'. m'(a + of_nat i := ucast (drop_bit (i * 8) d AND 0xFF))) [0..<n] m (a + of_nat j)
           = (ucast (drop_bit (j * 8) d AND 0xFF) :: 8 word)"
  using assms
proof (induction n)
  case 0
  then show ?case by simp
next
  case (Suc n)
  show ?case
  proof (cases "j = n")
    case True
    then show ?thesis by simp
  next
    case False
    with Suc.prems have jn: "j < n" and n: "n < 2 ^ 64" by simp_all
    have "a + of_nat j \<noteq> a + of_nat n"
      using of_nat_neq_64 [OF jn n] .
    then show ?thesis
      using Suc.IH [OF jn] n by simp
  qed
qed

lemma write_fold_frame:
  fixes a :: "64 word" and d :: "'a::len word"
  assumes "\<forall>i<n. x \<noteq> a + of_nat i"
  shows "fold (\<lambda>i m'. m'(a + of_nat i := ucast (drop_bit (i * 8) d AND 0xFF))) [0..<n] m x = m x"
  using assms by (induction n) simp_all

lemma write_to_dram_at:
  fixes d :: "'a::len word"
  assumes "j < LENGTH('a) div 8" "LENGTH('a) div 8 \<le> 2 ^ 64"
  shows "write_to_dram m a d (a + of_nat j) = ucast (drop_bit (j * 8) d AND 0xFF)"
  unfolding write_to_dram_def using assms by (rule write_fold_at)

lemma write_to_dram_frame:
  fixes d :: "'a::len word"
  assumes "\<forall>i<LENGTH('a) div 8. x \<noteq> a + of_nat i"
  shows "write_to_dram m a d x = m x"
  unfolding write_to_dram_def using assms by (rule write_fold_frame)

lemma read_from_dram_cong:
  assumes "\<forall>i<LENGTH('a) div 8. m1 (a + of_nat i) = m2 (a + of_nat i)"
  shows "(read_from_dram m1 a :: 'a::len word) = read_from_dram m2 a"
  by (rule bit_eqI) (use assms in \<open>auto simp: read_from_dram_bit\<close>)

lemma and_0xFF: "(x :: 'a::len word) AND 0xFF = take_bit 8 x"
proof -
  have "(0xFF :: 'a word) = mask 8" by (simp add: mask_eq_exp_minus_1)
  then show ?thesis by (simp add: take_bit_eq_mask)
qed

lemma read_write_same:
  fixes d :: "'a::len word"
  assumes len: "8 dvd LENGTH('a)" and small: "LENGTH('a) div 8 \<le> 2 ^ 64"
  shows "read_from_dram (write_to_dram m a d) a = d"
proof (rule bit_eqI)
  fix k
  assume "possible_bit TYPE('a word) k"
  show "bit (read_from_dram (write_to_dram m a d) a :: 'a word) k \<longleftrightarrow> bit d k"
  proof (cases "k < LENGTH('a)")
    case False
    then show ?thesis by (auto simp: read_from_dram_bit dest: bit_imp_le_length)
  next
    case True
    with len have kd: "k div 8 < LENGTH('a) div 8"
      by (auto simp: dvd_def)
    have "bit (write_to_dram m a d (a + of_nat (k div 8))) (k mod 8) \<longleftrightarrow> bit d k"
      unfolding write_to_dram_at [OF kd small] and_0xFF
      using True by (simp add: bit_simps mult.commute)
    with True kd show ?thesis by (simp add: read_from_dram_bit)
  qed
qed

lemma ucast_down_up:
  fixes x :: "64 word"
  assumes "unat x < 2 ^ LENGTH('a::len)" 
  shows "(ucast (ucast x :: 'a word) :: 64 word) = x"
proof -
  have "take_bit LENGTH('a) (unat x) = unat x"
    using assms by (simp add: take_bit_nat_eq_self)
  then have "unat (ucast (ucast x :: 'a word) :: 64 word) = unat x"
    by (simp add: unsigned_ucast_eq unsigned_take_bit_eq take_bit_nat_eq_self)
  then show ?thesis by (simp add: word_unat_eq_iff)
qed

lemma halves_disjoint:
  fixes a :: "64 word"
  assumes "i < 8" "j < 8"
  shows "a + of_nat i \<noteq> a + 8 + of_nat j"
proof -
  have "a + 8 + of_nat j = a + of_nat (8 + j)" by simp
  moreover have "a + of_nat i \<noteq> a + of_nat (8 + j)"
    by (rule of_nat_neq_64) (use assms in simp_all)
  ultimately show ?thesis by simp
qed

lemma read_lo_after_hi:
  fixes l h :: "64 word"
  shows "read_from_dram (write_to_dram (write_to_dram m a l) (a + 8) h) a = l"
proof -
  have "(read_from_dram (write_to_dram (write_to_dram m a l) (a + 8) h) a :: 64 word)
          = read_from_dram (write_to_dram m a l) a"
  proof (rule read_from_dram_cong, intro allI impI)
    fix i
    assume "i < LENGTH(64) div 8"
    then have i: "i < 8" by simp
    have "\<forall>j<LENGTH(64) div 8. a + of_nat i \<noteq> a + 8 + of_nat j"
      using halves_disjoint [OF i] by simp
    then show "write_to_dram (write_to_dram m a l) (a + 8) h (a + of_nat i)
                 = write_to_dram m a l (a + of_nat i)"
      by (rule write_to_dram_frame)
  qed
  then show ?thesis by (simp add: read_write_same)
qed

lemma round_trip_core:
  assumes "supported_width n" and "representable d n"
  shows "\<exists>m'. write_cb m a d n = Inr m' \<and> read_cb m' a n = Inr d"
proof -
  from assms(1) consider "n = 1" | "n = 2" | "n = 4" | "n = 8" | "n = 16"
    by (auto simp: supported_width_def)
  then show ?thesis
  proof cases
    case 1
    with assms(2) have "hi d = 0" "unat (lo d) < 2 ^ LENGTH(8)"
      by (simp_all add: representable_def)
    then show ?thesis
      using 1 by (simp add: write_cb_def read_cb_def read_write_same ucast_down_up)
  next
    case 2
    with assms(2) have "hi d = 0" "unat (lo d) < 2 ^ LENGTH(16)"
      by (simp_all add: representable_def)
    then show ?thesis
      using 2 by (simp add: write_cb_def read_cb_def read_write_same ucast_down_up)
  next
    case 3
    with assms(2) have "hi d = 0" "unat (lo d) < 2 ^ LENGTH(32)"
      by (simp_all add: representable_def)
    then show ?thesis
      using 3 by (simp add: write_cb_def read_cb_def read_write_same ucast_down_up)
  next
    case 4
    with assms(2) have "hi d = 0"
      by (simp_all add: representable_def)
    then show ?thesis
      using 4 by (simp add: write_cb_def read_cb_def read_write_same)
  next
    case 5
    then show ?thesis
      by (simp add: write_cb_def read_cb_def read_write_same read_lo_after_hi)
  qed
qed

lemma le_compose_snoc:
  "le_compose (bs @ [b]) = le_compose bs + push_bit (8 * length bs) (unat b)"
proof -
  have "(\<Sum>i\<leftarrow>[0..<length bs]. push_bit (8 * i) (unat ((bs @ [b]) ! i)))
          = (\<Sum>i\<leftarrow>[0..<length bs]. push_bit (8 * i) (unat (bs ! i)))"
    by (rule arg_cong [where f = sum_list], rule map_cong) (simp_all add: nth_append)
  then show ?thesis by (simp add: le_compose_def)
qed

lemma le_compose_bit:
  "bit (le_compose bs) k \<longleftrightarrow> k div 8 < length bs \<and> bit (bs ! (k div 8)) (k mod 8)"
proof (induction bs arbitrary: k rule: rev_induct)
  case Nil
  then show ?case by (simp add: le_compose_def)
next
  case (snoc b bs)
  let ?n = "length bs"
  have top: "bit (push_bit (8 * ?n) (unat b)) j \<longleftrightarrow> j div 8 = ?n \<and> bit b (j mod 8)" for j
  proof -
    have "bit (push_bit (8 * ?n) (unat b)) j \<longleftrightarrow> ?n * 8 \<le> j \<and> j - ?n * 8 < 8 \<and> bit b (j - ?n * 8)"
      by (auto simp add: bit_simps mult.commute dest: bit_imp_le_length)
    also have "\<dots> \<longleftrightarrow> j div 8 = ?n \<and> bit b (j mod 8)"
      using byte_index [of ?n j] byte_offset [of j ?n] by auto
    finally show ?thesis .
  qed
  have "\<not> bit (le_compose bs) j \<or> \<not> bit (push_bit (8 * ?n) (unat b)) j" for j
    unfolding snoc.IH top by auto
  then have "bit (le_compose bs + push_bit (8 * ?n) (unat b)) k
      \<longleftrightarrow> bit (le_compose bs) k \<or> bit (push_bit (8 * ?n) (unat b)) k"
    by (rule bit_disjunctive_add_iff)
  then show ?case
    unfolding le_compose_snoc snoc.IH top
    by (auto simp: nth_append less_Suc_eq)
qed

lemma le_compose_less: "le_compose bs < 2 ^ (8 * length bs)"
proof -
  have "take_bit (8 * length bs) (le_compose bs) = le_compose bs"
    by (rule bit_eqI) (auto simp: bit_simps le_compose_bit)
  then show ?thesis
    by (metis take_bit_nat_less_exp)
qed

lemma unat_read_from_dram:
  assumes "8 dvd LENGTH('a::len)"
  shows "unat (read_from_dram m a :: 'a word) = le_compose (bytes_at m a (LENGTH('a) div 8))"
proof (rule bit_eqI)
  fix k
  have "k < LENGTH('a) \<longleftrightarrow> k div 8 < LENGTH('a) div 8"
    using assms by (auto simp: dvd_def)
  then show "bit (unat (read_from_dram m a :: 'a word)) k
          \<longleftrightarrow> bit (le_compose (bytes_at m a (LENGTH('a) div 8))) k"
    by (auto simp: bit_unsigned_iff read_from_dram_bit le_compose_bit bytes_at_def)
qed

lemma length_bytes_at: "length (bytes_at m a w) = w"
  by (simp add: bytes_at_def)

lemma drop_bytes_at: "drop k (bytes_at m a (k + n)) = bytes_at m (a + of_nat k) n"
proof -
  have "[k..<k + n] = map (\<lambda>i. i + k) [0..<n]"
    by (simp add: map_add_upt add.commute)
  then have "drop k (bytes_at m a (k + n)) = map (\<lambda>i. m (a + of_nat (i + k))) [0..<n]"
    by (simp add: bytes_at_def drop_map o_def del: map_add_upt)
  then show ?thesis
    by (simp add: bytes_at_def ac_simps)
qed

lemma bytes_at_upper: "drop 8 (bytes_at m a 16) = bytes_at m (a + 8) 8"
  using drop_bytes_at [of 8 m a 8] by simp

lemma bytes_at_lower: "take 8 (bytes_at m a 16) = bytes_at m a 8"
  by (simp add: bytes_at_def take_map)

lemma read_as_le_compose:
  assumes "8 dvd LENGTH('a::len)" and "LENGTH('a) \<le> 64"
  shows "unat (ucast (read_from_dram m a :: 'a word) :: 64 word)
           = le_compose (bytes_at m a (LENGTH('a) div 8))"
    and "unat (ucast (read_from_dram m a :: 'a word) :: 64 word) < 2 ^ (8 * (LENGTH('a) div 8))"
proof -
  have "unat (read_from_dram m a :: 'a word) < 2 ^ LENGTH('a)"
    by (rule unsigned_less)
  also have "(2::nat) ^ LENGTH('a) \<le> 2 ^ 64"
    using assms(2) by (intro power_increasing) simp_all
  finally have "unat (ucast (read_from_dram m a :: 'a word) :: 64 word)
          = unat (read_from_dram m a :: 'a word)"
    by (simp add: unsigned_ucast_eq take_bit_nat_eq_self)
  then show "unat (ucast (read_from_dram m a :: 'a word) :: 64 word)
           = le_compose (bytes_at m a (LENGTH('a) div 8))"
    using unat_read_from_dram [OF assms(1)] by simp
  then show "unat (ucast (read_from_dram m a :: 'a word) :: 64 word) < 2 ^ (8 * (LENGTH('a) div 8))"
    using le_compose_less [of "bytes_at m a (LENGTH('a) div 8)"]
    by (simp only: length_bytes_at)
qed

lemma read_cb_value:
  "(n = 1 \<or> n = 2 \<or> n = 4 \<or> n = 8 \<longrightarrow>
      (\<exists>v. read_cb m a n = Inr v \<and> unat (lo v) = le_compose (bytes_at m a (unat n))
             \<and> unat (lo v) < 2 ^ (8 * unat n) \<and> hi v = 0))
   \<and> (\<exists>v. read_cb m a 16 = Inr v \<and> unat (lo v) = le_compose (take 8 (bytes_at m a 16))
             \<and> unat (hi v) = le_compose (drop 8 (bytes_at m a 16)))"
proof (intro conjI impI)
  assume "n = 1 \<or> n = 2 \<or> n = 4 \<or> n = 8"
  then consider "n = 1" | "n = 2" | "n = 4" | "n = 8" by auto
  then show "\<exists>v. read_cb m a n = Inr v \<and> unat (lo v) = le_compose (bytes_at m a (unat n))
             \<and> unat (lo v) < 2 ^ (8 * unat n) \<and> hi v = 0"
  proof cases
    case 1
    then show ?thesis
      using read_as_le_compose [where 'a = 8, of m a] by (simp add: read_cb_def)
  next
    case 2
    then show ?thesis
      using read_as_le_compose [where 'a = 16, of m a] by (simp add: read_cb_def)
  next
    case 3
    then show ?thesis
      using read_as_le_compose [where 'a = 32, of m a] by (simp add: read_cb_def)
  next
    case 4
    then show ?thesis
      using read_as_le_compose [where 'a = 64, of m a] by (simp add: read_cb_def)
  qed
next
  have "unat (read_from_dram m a :: 64 word) = le_compose (bytes_at m a 8)"
    "unat (read_from_dram m (a + 8) :: 64 word) = le_compose (bytes_at m (a + 8) 8)"
    using unat_read_from_dram [where 'a = 64] by simp_all
  then show "\<exists>v. read_cb m a 16 = Inr v \<and> unat (lo v) = le_compose (take 8 (bytes_at m a 16))
             \<and> unat (hi v) = le_compose (drop 8 (bytes_at m a 16))"
    by (simp add: read_cb_def bytes_at_upper bytes_at_lower)
qed

text \<open>
  Claim C4. A read of width 1, 2, 4 or 8 returns in the low half the little-endian
  composition of the bytes at the address and the following ones (byte \<open>i\<close> shifted left
  by \<open>8 * i\<close>), which is below \<open>2 ^ (8 * width)\<close>, and a zero high half. A read of width 16
  returns the composition of the first eight bytes in the low half and of the last
  eight bytes in the high half.
\<close>

theorem read_cb_little_endian:
  "(n = 1 \<or> n = 2 \<or> n = 4 \<or> n = 8 \<longrightarrow>
      (\<exists>v. read_cb m a n = Inr v \<and> unat (lo v) = le_compose (bytes_at m a (unat n))
             \<and> unat (lo v) < 2 ^ (8 * unat n) \<and> hi v = 0))
   \<and> (\<exists>v. read_cb m a 16 = Inr v \<and> unat (lo v) = le_compose (take 8 (bytes_at m a 16))
             \<and> unat (hi v) = le_compose (drop 8 (bytes_at m a 16)))"
  by (rule read_cb_value)

text \<open>
  Claim C3. For every supported width, every address and every value representable in
  that width, the write callback followed by the read callback at the same address and
  width returns the value written, and the bytes the write left in memory compose to
  that value least significant byte first. Addresses wrap at 64 bits.
\<close>

theorem adapter_round_trip:
  assumes "supported_width n" and "representable d n"
  shows "\<exists>m'. write_cb m a d n = Inr m' \<and> read_cb m' a n = Inr d
           \<and> (if n = 16
               then unat (lo d) = le_compose (take 8 (bytes_at m' a 16))
                    \<and> unat (hi d) = le_compose (drop 8 (bytes_at m' a 16))
               else unat (lo d) = le_compose (bytes_at m' a (unat n)))"
proof -
  obtain m' where w: "write_cb m a d n = Inr m'" and r: "read_cb m' a n = Inr d"
    using round_trip_core [OF assms] by blast
  have "if n = 16
        then unat (lo d) = le_compose (take 8 (bytes_at m' a 16))
             \<and> unat (hi d) = le_compose (drop 8 (bytes_at m' a 16))
        else unat (lo d) = le_compose (bytes_at m' a (unat n))"
  proof (cases "n = 16")
    case True
    with r read_cb_value [of n m' a] show ?thesis by auto
  next
    case False
    with assms(1) have "n = 1 \<or> n = 2 \<or> n = 4 \<or> n = 8"
      by (simp add: supported_width_def)
    with r read_cb_value [of n m' a] False show ?thesis by auto
  qed
  with w r show ?thesis by blast
qed

theorem adapter_round_trip_witness:
  "supported_width 2 \<and> representable \<lparr>lo = 0x1234, hi = 0\<rparr> 2
   \<and> (\<exists>m'. write_cb sample_mem 0xFFFFFFFFFFFFFFFF \<lparr>lo = 0x1234, hi = 0\<rparr> 2 = Inr m'
            \<and> read_cb m' 0xFFFFFFFFFFFFFFFF 2 = Inr \<lparr>lo = 0x1234, hi = 0\<rparr>
            \<and> le_compose (bytes_at m' 0xFFFFFFFFFFFFFFFF 2) = 0x1234)"
proof -
  have h: "supported_width 2" "representable \<lparr>lo = 0x1234, hi = 0\<rparr> 2"
    by (simp_all add: supported_width_def representable_def)
  from adapter_round_trip [OF h, of sample_mem "0xFFFFFFFFFFFFFFFF"] h show ?thesis
    by auto
qed

theorem read_cb_little_endian_witness:
  "((2 :: 32 word) = 1 \<or> (2 :: 32 word) = 2 \<or> (2 :: 32 word) = 4 \<or> (2 :: 32 word) = 8)
   \<and> (\<exists>v. read_cb sample_mem 0x1000 2 = Inr v \<and> unat (lo v) = 0x1234 \<and> hi v = 0)"
proof -
  have "[0..<2] = [0, 1]"
    by (simp add: upt_rec)
  then have "le_compose (bytes_at sample_mem 0x1000 2) = 0x1234"
    by (simp add: le_compose_def bytes_at_def sample_mem_def)
  with read_cb_little_endian [of 2 sample_mem "0x1000"] show ?thesis
    by auto
qed

text \<open>
  Claim C7. For a width outside 1, 2, 4, 8 and 16 the read callback and the write
  callback abort; for a width among them neither aborts: each returns a value.
\<close>

theorem unsupported_width_aborts:
  "(\<not> supported_width n \<longrightarrow> read_cb m a n = Inl Aborted \<and> write_cb m a d n = Inl Aborted)
   \<and> (supported_width n \<longrightarrow> (\<exists>v. read_cb m a n = Inr v) \<and> (\<exists>m'. write_cb m a d n = Inr m'))"
  by (auto simp add: supported_width_def read_cb_def write_cb_def)

theorem unsupported_width_aborts_witness:
  "\<not> supported_width 3 \<and> read_cb sample_mem 0x1000 3 = Inl Aborted
   \<and> write_cb sample_mem 0x1000 \<lparr>lo = 1, hi = 0\<rparr> 3 = Inl Aborted
   \<and> supported_width 4 \<and> (\<exists>v. read_cb sample_mem 0x1000 4 = Inr v)
   \<and> (\<exists>m'. write_cb sample_mem 0x1000 \<lparr>lo = 1, hi = 0\<rparr> 4 = Inr m')"
proof -
  have h: "\<not> supported_width 3" "supported_width 4"
    by (simp_all add: supported_width_def)
  from unsupported_width_aborts [of 3 sample_mem "0x1000" "\<lparr>lo = 1, hi = 0\<rparr>"]
    unsupported_width_aborts [of 4 sample_mem "0x1000" "\<lparr>lo = 1, hi = 0\<rparr>"] h
  show ?thesis by simp
qed

section \<open>The DMA responder loops\<close>

lemma read_loop_trace:
  assumes "dma_read_handler_thread cb steps s = (fin, s', evs)"
  shows "responder_rounds_or_abort read_args evs \<and> (list_ex is_failure evs \<longrightarrow> fin = Exited)"
  using assms
proof (induction steps arbitrary: s fin s' evs)
  case Nil
  then show ?case by auto
next
  case (Cons st rest)
  show ?case
    using Cons.prems
    by (auto simp add: Let_def read_args_def handle_dma_read_def
        split: if_splits prod.splits option.splits bool.splits sum.splits fatal.splits
        dest!: Cons.IH)
qed

lemma read_loop_exit:
  assumes "dma_read_handler_thread cb steps s = (fin, s', evs)" and "fin \<noteq> Awaiting"
  shows "dma_read_handler_thread cb (steps @ later) s = (fin, s', evs)"
  using assms
proof (induction steps arbitrary: s s' evs)
  case Nil
  then show ?case by simp
next
  case (Cons st rest)
  show ?case
    using Cons.prems
    by (auto simp add: Let_def split: if_splits prod.splits option.splits bool.splits
        sum.splits fatal.splits dest!: Cons.IH)
qed

lemma write_loop_trace:
  assumes "dma_write_handler_thread cb steps (s, mem) = (fin, sm', evs)"
  shows "responder_rounds_or_abort write_args evs \<and> (list_ex is_failure evs \<longrightarrow> fin = Exited)"
  using assms
proof (induction steps arbitrary: s mem fin sm' evs)
  case Nil
  then show ?case by auto
next
  case (Cons st rest)
  show ?case
    using Cons.prems
    by (auto simp add: Let_def write_args_def handle_dma_write_def
        split: if_splits prod.splits option.splits bool.splits sum.splits fatal.splits
        dest!: Cons.IH)
qed

lemma write_loop_exit:
  assumes "dma_write_handler_thread cb steps (s, mem) = (fin, sm', evs)" and "fin \<noteq> Awaiting"
  shows "dma_write_handler_thread cb (steps @ later) (s, mem) = (fin, sm', evs)"
  using assms
proof (induction steps arbitrary: s mem sm' evs)
  case Nil
  then show ?case by simp
next
  case (Cons st rest)
  show ?case
    using Cons.prems
    by (auto simp add: Let_def split: if_splits prod.splits option.splits bool.splits
        sum.splits fatal.splits dest!: Cons.IH)
qed

lemma read_loop_not_ready:
  assumes "\<not> socket_initialized s"
  shows "snd (snd (dma_read_handler_thread cb steps s)) = []"
  using assms by (cases steps) (simp_all add: close_closes(1))

lemma write_loop_not_ready:
  assumes "\<not> socket_initialized s"
  shows "snd (snd (dma_write_handler_thread cb steps (s, mem))) = []"
  using assms by (cases steps) (simp_all add: close_closes(1))

text \<open>One round at the head of the environment, on a session that passes the loop condition.\<close>

lemma read_loop_served:
  assumes "read_loop_cond s" and "cb (rd_addr req) (rd_size req) = Inr v"
  shows "dma_read_handler_thread cb (deliver req # rest) s =
     (case dma_read_handler_thread cb rest s of
        (fin, s', later) \<Rightarrow> (fin, s', read_round cb True req @ later))"
  using assms
  by (simp add: read_loop_cond_def deliver_def recv_dma_read_request_def handle_dma_read_def
      send_dma_read_response_def read_round_def read_resp_def read_args_def split: prod.splits)

lemma read_loop_aborted:
  assumes "read_loop_cond s" and "isl (cb (rd_addr req) (rd_size req))"
  shows "dma_read_handler_thread cb (deliver req # rest) s =
     (Process_aborted, s, [Ev_recv req, Ev_callback (read_args req)])"
  using assms
  by (auto simp add: read_loop_cond_def deliver_def recv_dma_read_request_def handle_dma_read_def
      read_args_def isl_def split: fatal.splits)

lemma read_loop_recv_failure:
  assumes "read_loop_cond s"
  shows "dma_read_handler_thread cb (recv_failure # rest) s = (Exited, fst (close s), [Ev_recv_fail])"
  using assms
  by (simp add: read_loop_cond_def recv_failure_def recv_dma_read_request_def)

lemma read_loop_send_failure:
  assumes "read_loop_cond s" and "cb (rd_addr req) (rd_size req) = Inr v"
  shows "dma_read_handler_thread cb (deliver_unsent req # rest) s =
     (Exited, fst (close s), read_round cb False req)"
  using assms
  by (simp add: read_loop_cond_def deliver_unsent_def recv_dma_read_request_def
      handle_dma_read_def send_dma_read_response_def read_round_def read_resp_def read_args_def)

lemma read_loop_progress:
  assumes "read_loop_cond s" and "\<forall>req \<in> set reqs. \<not> isl (cb (rd_addr req) (rd_size req))"
    and "dma_read_handler_thread cb steps s = (fin, s', evs)"
  shows "dma_read_handler_thread cb (map deliver reqs @ steps) s =
     (fin, s', concat (map (read_round cb True) reqs) @ evs)"
  using assms(2)
proof (induction reqs)
  case Nil
  then show ?case using assms(3) by simp
next
  case (Cons req reqs)
  then obtain v where v: "cb (rd_addr req) (rd_size req) = Inr v"
    by (cases "cb (rd_addr req) (rd_size req)") auto
  from Cons have "dma_read_handler_thread cb (map deliver reqs @ steps) s =
     (fin, s', concat (map (read_round cb True) reqs) @ evs)"
    by simp
  then show ?case
    using read_loop_served [where cb = cb and req = req and s = s and v = v
        and rest = "map deliver reqs @ steps"] assms(1) v
    by simp
qed

lemma write_loop_served:
  assumes "write_loop_cond s"
    and "cb (wr_addr req) \<lparr>lo = wr_data_lo req, hi = wr_data_hi req\<rparr> (wr_size req) mem = Inr mem'"
  shows "dma_write_handler_thread cb (deliver req # rest) (s, mem) =
     (case dma_write_handler_thread cb rest (s, mem') of
        (fin, sm, later) \<Rightarrow> (fin, sm, write_round True req @ later))"
  using assms
  by (simp add: write_loop_cond_def deliver_def recv_dma_write_request_def handle_dma_write_def
      send_dma_write_response_def write_round_def write_resp_def write_args_def Let_def
      split: prod.splits)

lemma write_loop_aborted:
  assumes "write_loop_cond s"
    and "isl (cb (wr_addr req) \<lparr>lo = wr_data_lo req, hi = wr_data_hi req\<rparr> (wr_size req) mem)"
  shows "dma_write_handler_thread cb (deliver req # rest) (s, mem) =
     (Process_aborted, (s, mem), [Ev_recv req, Ev_callback (write_args req)])"
  using assms
  by (auto simp add: write_loop_cond_def deliver_def recv_dma_write_request_def
      handle_dma_write_def write_args_def isl_def Let_def split: fatal.splits)

lemma write_loop_recv_failure:
  assumes "write_loop_cond s"
  shows "dma_write_handler_thread cb (recv_failure # rest) (s, mem) =
     (Exited, (fst (close s), mem), [Ev_recv_fail])"
  using assms
  by (simp add: write_loop_cond_def recv_failure_def recv_dma_write_request_def)

lemma write_loop_send_failure:
  assumes "write_loop_cond s"
    and "cb (wr_addr req) \<lparr>lo = wr_data_lo req, hi = wr_data_hi req\<rparr> (wr_size req) mem = Inr mem'"
  shows "dma_write_handler_thread cb (deliver_unsent req # rest) (s, mem) =
     (Exited, (fst (close s), mem'), write_round False req)"
  using assms
  by (simp add: write_loop_cond_def deliver_unsent_def recv_dma_write_request_def
      handle_dma_write_def send_dma_write_response_def write_round_def write_resp_def
      write_args_def Let_def)

lemma write_loop_progress:
  assumes "write_loop_cond s" and "apply_writes cb reqs mem0 = Inr mem"
    and "dma_write_handler_thread cb steps (s, mem) = (fin, sm', evs)"
  shows "dma_write_handler_thread cb (map deliver reqs @ steps) (s, mem0) =
     (fin, sm', concat (map (write_round True) reqs) @ evs)"
  using assms(2)
proof (induction reqs arbitrary: mem0)
  case Nil
  then show ?case using assms(3) by simp
next
  case (Cons req reqs)
  then obtain mem1
    where m1: "cb (wr_addr req) \<lparr>lo = wr_data_lo req, hi = wr_data_hi req\<rparr> (wr_size req) mem0
                 = Inr mem1"
      and rest: "apply_writes cb reqs mem1 = Inr mem"
    by (auto split: sum.splits)
  from Cons.IH [OF rest] show ?case
    using write_loop_served [where cb = cb and req = req and s = s and mem = mem0
        and mem' = mem1 and rest = "map deliver reqs @ steps"] assms(1) m1
    by simp
qed

text \<open>
  Claim C5, as amended. The trace of each responder loop consists of rounds of one
  received request, one invocation of the callback with the arguments of that request
  and, when the callback returns, one response, in this order; a failed receive or a
  failed send is the last event of the trace and the loop has then exited; a loop that
  has exited, or whose process was ended, stays so whatever the environment offers
  afterwards; a loop entered on a session that is not ready does nothing. On a session
  that passes the loop condition, requests delivered one after the other whose
  callbacks return are each received, served once and answered once, in the order of
  delivery, before the loop goes on with the rest of the environment, and the write
  callbacks act on the memory in that order; a request whose callback ends the process
  is received and handed to the callback, and nothing is sent; a failed send follows the
  round's receive and callback and ends the loop with the session closed, as does a
  failed receive.
\<close>

theorem responder_loops_in_order:
  assumes r: "dma_read_handler_thread rcb rsteps s = (rfin, rs', revs)"
    and w: "dma_write_handler_thread wcb wsteps (s, mem) = (wfin, wsm', wevs)"
  shows "responder_rounds_or_abort read_args revs \<and> responder_rounds_or_abort write_args wevs
     \<and> (list_ex is_failure revs \<longrightarrow> rfin = Exited)
     \<and> (list_ex is_failure wevs \<longrightarrow> wfin = Exited)
     \<and> (rfin \<noteq> Awaiting \<longrightarrow>
          (\<forall>later. dma_read_handler_thread rcb (rsteps @ later) s = (rfin, rs', revs)))
     \<and> (wfin \<noteq> Awaiting \<longrightarrow>
          (\<forall>later. dma_write_handler_thread wcb (wsteps @ later) (s, mem) = (wfin, wsm', wevs)))
     \<and> (\<not> socket_initialized s \<longrightarrow> revs = [] \<and> wevs = [])
     \<and> (read_loop_cond s \<longrightarrow>
          (\<forall>reqs. (\<forall>req \<in> set reqs. \<not> isl (rcb (rd_addr req) (rd_size req))) \<longrightarrow>
             dma_read_handler_thread rcb (map deliver reqs @ rsteps) s
               = (rfin, rs', concat (map (read_round rcb True) reqs) @ revs))
        \<and> (\<forall>req later. isl (rcb (rd_addr req) (rd_size req)) \<longrightarrow>
             dma_read_handler_thread rcb (deliver req # later) s
               = (Process_aborted, s, [Ev_recv req, Ev_callback (read_args req)]))
        \<and> (\<forall>req later. \<not> isl (rcb (rd_addr req) (rd_size req)) \<longrightarrow>
             dma_read_handler_thread rcb (deliver_unsent req # later) s
               = (Exited, fst (close s), read_round rcb False req))
        \<and> (\<forall>later. dma_read_handler_thread rcb (recv_failure # later) s
               = (Exited, fst (close s), [Ev_recv_fail])))
     \<and> (write_loop_cond s \<longrightarrow>
          (\<forall>reqs mem0. apply_writes wcb reqs mem0 = Inr mem \<longrightarrow>
             dma_write_handler_thread wcb (map deliver reqs @ wsteps) (s, mem0)
               = (wfin, wsm', concat (map (write_round True) reqs) @ wevs))
        \<and> (\<forall>req later m0.
             isl (wcb (wr_addr req) \<lparr>lo = wr_data_lo req, hi = wr_data_hi req\<rparr> (wr_size req) m0) \<longrightarrow>
             dma_write_handler_thread wcb (deliver req # later) (s, m0)
               = (Process_aborted, (s, m0), [Ev_recv req, Ev_callback (write_args req)]))
        \<and> (\<forall>req later m0 m1.
             wcb (wr_addr req) \<lparr>lo = wr_data_lo req, hi = wr_data_hi req\<rparr> (wr_size req) m0 = Inr m1 \<longrightarrow>
             dma_write_handler_thread wcb (deliver_unsent req # later) (s, m0)
               = (Exited, (fst (close s), m1), write_round False req))
        \<and> (\<forall>later m0. dma_write_handler_thread wcb (recv_failure # later) (s, m0)
               = (Exited, (fst (close s), m0), [Ev_recv_fail])))"
proof -
  have shape: "responder_rounds_or_abort read_args revs" "list_ex is_failure revs \<longrightarrow> rfin = Exited"
    "responder_rounds_or_abort write_args wevs" "list_ex is_failure wevs \<longrightarrow> wfin = Exited"
    using read_loop_trace [OF r] write_loop_trace [OF w] by simp_all
  have stay: "rfin \<noteq> Awaiting \<longrightarrow>
          (\<forall>later. dma_read_handler_thread rcb (rsteps @ later) s = (rfin, rs', revs))"
    "wfin \<noteq> Awaiting \<longrightarrow>
          (\<forall>later. dma_write_handler_thread wcb (wsteps @ later) (s, mem) = (wfin, wsm', wevs))"
    using read_loop_exit [OF r] write_loop_exit [OF w] by simp_all
  have idle: "\<not> socket_initialized s \<longrightarrow> revs = [] \<and> wevs = []"
    using read_loop_not_ready [of s rcb rsteps] write_loop_not_ready [of s wcb wsteps mem] r w
    by simp
  have rd: "read_loop_cond s \<longrightarrow>
          (\<forall>reqs. (\<forall>req \<in> set reqs. \<not> isl (rcb (rd_addr req) (rd_size req))) \<longrightarrow>
             dma_read_handler_thread rcb (map deliver reqs @ rsteps) s
               = (rfin, rs', concat (map (read_round rcb True) reqs) @ revs))
        \<and> (\<forall>req later. isl (rcb (rd_addr req) (rd_size req)) \<longrightarrow>
             dma_read_handler_thread rcb (deliver req # later) s
               = (Process_aborted, s, [Ev_recv req, Ev_callback (read_args req)]))
        \<and> (\<forall>req later. \<not> isl (rcb (rd_addr req) (rd_size req)) \<longrightarrow>
             dma_read_handler_thread rcb (deliver_unsent req # later) s
               = (Exited, fst (close s), read_round rcb False req))
        \<and> (\<forall>later. dma_read_handler_thread rcb (recv_failure # later) s
               = (Exited, fst (close s), [Ev_recv_fail]))"
  proof (intro impI conjI allI)
    assume c: "read_loop_cond s"
    show "dma_read_handler_thread rcb (map deliver reqs @ rsteps) s
               = (rfin, rs', concat (map (read_round rcb True) reqs) @ revs)"
      if "\<forall>req \<in> set reqs. \<not> isl (rcb (rd_addr req) (rd_size req))" for reqs
      using c that r by (rule read_loop_progress)
    show "dma_read_handler_thread rcb (deliver req # later) s
               = (Process_aborted, s, [Ev_recv req, Ev_callback (read_args req)])"
      if "isl (rcb (rd_addr req) (rd_size req))" for req later
      using c that by (rule read_loop_aborted)
    show "dma_read_handler_thread rcb (deliver_unsent req # later) s
               = (Exited, fst (close s), read_round rcb False req)"
      if "\<not> isl (rcb (rd_addr req) (rd_size req))" for req later
    proof -
      from that obtain v where v: "rcb (rd_addr req) (rd_size req) = Inr v"
        by (cases "rcb (rd_addr req) (rd_size req)") auto
      from c v show ?thesis by (rule read_loop_send_failure)
    qed
    show "dma_read_handler_thread rcb (recv_failure # later) s
               = (Exited, fst (close s), [Ev_recv_fail])" for later
      using c by (rule read_loop_recv_failure)
  qed
  have wr: "write_loop_cond s \<longrightarrow>
          (\<forall>reqs mem0. apply_writes wcb reqs mem0 = Inr mem \<longrightarrow>
             dma_write_handler_thread wcb (map deliver reqs @ wsteps) (s, mem0)
               = (wfin, wsm', concat (map (write_round True) reqs) @ wevs))
        \<and> (\<forall>req later m0.
             isl (wcb (wr_addr req) \<lparr>lo = wr_data_lo req, hi = wr_data_hi req\<rparr> (wr_size req) m0) \<longrightarrow>
             dma_write_handler_thread wcb (deliver req # later) (s, m0)
               = (Process_aborted, (s, m0), [Ev_recv req, Ev_callback (write_args req)]))
        \<and> (\<forall>req later m0 m1.
             wcb (wr_addr req) \<lparr>lo = wr_data_lo req, hi = wr_data_hi req\<rparr> (wr_size req) m0 = Inr m1 \<longrightarrow>
             dma_write_handler_thread wcb (deliver_unsent req # later) (s, m0)
               = (Exited, (fst (close s), m1), write_round False req))
        \<and> (\<forall>later m0. dma_write_handler_thread wcb (recv_failure # later) (s, m0)
               = (Exited, (fst (close s), m0), [Ev_recv_fail]))"
  proof (intro impI conjI allI)
    assume c: "write_loop_cond s"
    show "dma_write_handler_thread wcb (map deliver reqs @ wsteps) (s, mem0)
               = (wfin, wsm', concat (map (write_round True) reqs) @ wevs)"
      if "apply_writes wcb reqs mem0 = Inr mem" for reqs mem0
      using c that w by (rule write_loop_progress)
    show "dma_write_handler_thread wcb (deliver req # later) (s, m0)
               = (Process_aborted, (s, m0), [Ev_recv req, Ev_callback (write_args req)])"
      if "isl (wcb (wr_addr req) \<lparr>lo = wr_data_lo req, hi = wr_data_hi req\<rparr> (wr_size req) m0)"
      for req later m0
      using c that by (rule write_loop_aborted)
    show "dma_write_handler_thread wcb (deliver_unsent req # later) (s, m0)
               = (Exited, (fst (close s), m1), write_round False req)"
      if "wcb (wr_addr req) \<lparr>lo = wr_data_lo req, hi = wr_data_hi req\<rparr> (wr_size req) m0 = Inr m1"
      for req later m0 m1
      using c that by (rule write_loop_send_failure)
    show "dma_write_handler_thread wcb (recv_failure # later) (s, m0)
               = (Exited, (fst (close s), m0), [Ev_recv_fail])" for later m0
      using c by (rule write_loop_recv_failure)
  qed
  from shape stay idle rd wr show ?thesis by blast
qed

lemma sample_read_2: "read_cb sample_mem 0x1000 2 = Inr \<lparr>lo = 0x1234, hi = 0\<rparr>"
proof -
  have "[0..<2] = [0, 1]" by (simp add: upt_rec)
  then show ?thesis
    by (simp add: read_cb_def read_from_dram_def sample_mem_def)
qed

text \<open>
  Claim C5, as stated, fails: a request of size 3 is received and handed to the installed
  callback, which ends the process; no response is sent for it, on the read side and on
  the write side.
\<close>

theorem responder_aborts_without_response:
  "dma_read_handler_thread (read_cb sample_mem)
       [deliver \<lparr>rd_addr = 0x1000, rd_size = 3\<rparr>, deliver \<lparr>rd_addr = 0x1000, rd_size = 8\<rparr>]
       connected
     = (Process_aborted, connected,
        [Ev_recv \<lparr>rd_addr = 0x1000, rd_size = 3\<rparr>, Ev_callback (0x1000, 3)])
   \<and> \<not> responder_rounds read_args
         [Ev_recv \<lparr>rd_addr = 0x1000, rd_size = 3\<rparr>, Ev_callback (0x1000, 3)]
   \<and> dma_write_handler_thread installed_write_cb
       [deliver \<lparr>wr_addr = 0x1000, wr_data_lo = 9, wr_data_hi = 0, wr_size = 3\<rparr>]
       (connected, sample_mem)
     = (Process_aborted, (connected, sample_mem),
        [Ev_recv \<lparr>wr_addr = 0x1000, wr_data_lo = 9, wr_data_hi = 0, wr_size = 3\<rparr>,
         Ev_callback (0x1000, \<lparr>lo = 9, hi = 0\<rparr>, 3)])
   \<and> \<not> responder_rounds write_args
         [Ev_recv \<lparr>wr_addr = 0x1000, wr_data_lo = 9, wr_data_hi = 0, wr_size = 3\<rparr>,
          Ev_callback (0x1000, \<lparr>lo = 9, hi = 0\<rparr>, 3)]"
  by (simp add: deliver_def connected_def recv_dma_read_request_def handle_dma_read_def
      recv_dma_write_request_def handle_dma_write_def read_cb_def write_cb_def
      installed_write_cb_def)

lemma connected_conds: "read_loop_cond connected" "write_loop_cond connected"
  by (simp_all add: read_loop_cond_def write_loop_cond_def connected_def)

lemma read_tail_run:
  "dma_read_handler_thread (read_cb sample_mem) [recv_failure] connected
     = (Exited, fst (close connected), [Ev_recv_fail])"
  using connected_conds(1) by (rule read_loop_recv_failure)

lemma write_tail_run:
  "dma_write_handler_thread installed_write_cb [recv_failure]
       (connected, write_to_dram sample_mem 0x1000 (9 :: 64 word))
     = (Exited, (fst (close connected), write_to_dram sample_mem 0x1000 (9 :: 64 word)),
        [Ev_recv_fail])"
  using connected_conds(2) by (rule write_loop_recv_failure)

theorem responder_loops_in_order_witness:
  "read_loop_cond connected \<and> write_loop_cond connected
   \<and> \<not> isl (read_cb sample_mem 0x1000 2)
   \<and> dma_read_handler_thread (read_cb sample_mem)
        [deliver \<lparr>rd_addr = 0x1000, rd_size = 2\<rparr>, recv_failure] connected
       = (Exited, fst (close connected),
          [Ev_recv \<lparr>rd_addr = 0x1000, rd_size = 2\<rparr>, Ev_callback (0x1000, 2),
           Ev_send (read_resp \<lparr>lo = 0x1234, hi = 0\<rparr>) True, Ev_recv_fail])
   \<and> dma_write_handler_thread installed_write_cb
        [deliver \<lparr>wr_addr = 0x1000, wr_data_lo = 9, wr_data_hi = 0, wr_size = 8\<rparr>, recv_failure]
        (connected, sample_mem)
       = (Exited, (fst (close connected), write_to_dram sample_mem 0x1000 (9 :: 64 word)),
          [Ev_recv \<lparr>wr_addr = 0x1000, wr_data_lo = 9, wr_data_hi = 0, wr_size = 8\<rparr>,
           Ev_callback (0x1000, \<lparr>lo = 9, hi = 0\<rparr>, 8), Ev_send write_resp True, Ev_recv_fail])
   \<and> isl (read_cb sample_mem 0x1000 3)
   \<and> dma_read_handler_thread (read_cb sample_mem)
        [deliver \<lparr>rd_addr = 0x1000, rd_size = 3\<rparr>, recv_failure] connected
       = (Process_aborted, connected,
          [Ev_recv \<lparr>rd_addr = 0x1000, rd_size = 3\<rparr>, Ev_callback (0x1000, 3)])"
proof -
  note law = responder_loops_in_order [OF read_tail_run write_tail_run]
  let ?r2 = "\<lparr>rd_addr = 0x1000, rd_size = 2\<rparr>"
  let ?r3 = "\<lparr>rd_addr = 0x1000, rd_size = 3\<rparr>"
  let ?w8 = "\<lparr>wr_addr = 0x1000, wr_data_lo = 9, wr_data_hi = 0, wr_size = 8\<rparr>"
  have ok2: "\<not> isl (read_cb sample_mem 0x1000 2)"
    by (simp add: sample_read_2)
  have bad3: "isl (read_cb sample_mem 0x1000 3)"
    by (simp add: read_cb_def)
  have w8: "apply_writes installed_write_cb [?w8] sample_mem
              = Inr (write_to_dram sample_mem 0x1000 (9 :: 64 word))"
    by (simp add: installed_write_cb_def write_cb_def)
  from law connected_conds(1) 
  have "(\<forall>req \<in> set [?r2]. \<not> isl (read_cb sample_mem (rd_addr req) (rd_size req))) \<longrightarrow>
      dma_read_handler_thread (read_cb sample_mem) (map deliver [?r2] @ [recv_failure]) connected
        = (Exited, fst (close connected),
           concat (map (read_round (read_cb sample_mem) True) [?r2]) @ [Ev_recv_fail])"
    by blast
  with ok2 have a: "dma_read_handler_thread (read_cb sample_mem) [deliver ?r2, recv_failure] connected
       = (Exited, fst (close connected),
          [Ev_recv ?r2, Ev_callback (0x1000, 2),
           Ev_send (read_resp \<lparr>lo = 0x1234, hi = 0\<rparr>) True, Ev_recv_fail])"
    by (simp add: read_round_def sample_read_2 read_args_def)
  from law connected_conds(2)
  have "apply_writes installed_write_cb [?w8] sample_mem
              = Inr (write_to_dram sample_mem 0x1000 (9 :: 64 word)) \<longrightarrow>
      dma_write_handler_thread installed_write_cb (map deliver [?w8] @ [recv_failure])
          (connected, sample_mem)
        = (Exited, (fst (close connected), write_to_dram sample_mem 0x1000 (9 :: 64 word)),
           concat (map (write_round True) [?w8]) @ [Ev_recv_fail])"
    by blast
  with w8 have b: "dma_write_handler_thread installed_write_cb [deliver ?w8, recv_failure]
        (connected, sample_mem)
       = (Exited, (fst (close connected), write_to_dram sample_mem 0x1000 (9 :: 64 word)),
          [Ev_recv ?w8, Ev_callback (0x1000, \<lparr>lo = 9, hi = 0\<rparr>, 8),
           Ev_send write_resp True, Ev_recv_fail])"
    by (simp add: write_round_def write_args_def)
  from law connected_conds(1)
  have "isl (read_cb sample_mem (rd_addr ?r3) (rd_size ?r3)) \<longrightarrow>
      dma_read_handler_thread (read_cb sample_mem) (deliver ?r3 # [recv_failure]) connected
        = (Process_aborted, connected, [Ev_recv ?r3, Ev_callback (read_args ?r3)])"
    by blast
  with bad3 have c: "dma_read_handler_thread (read_cb sample_mem) [deliver ?r3, recv_failure] connected
       = (Process_aborted, connected, [Ev_recv ?r3, Ev_callback (0x1000, 3)])"
    by (simp add: read_args_def)
  from a b c ok2 bad3 connected_conds show ?thesis by simp
qed

section \<open>Short receives\<close>

text \<open>
  Claim C6. A receive of 3 of the 8 bytes of \<open>socket_resp_t\<close> makes \<open>recv_response\<close> of
  the customext client return true with the session left open, and a receive of one
  byte makes \<open>recv_header\<close> return true, where \<open>recv_cmd_response\<close> returns false and
  closes the session on 3 of its 8 bytes.
\<close>

theorem short_receive_accepted:
  "0 < (3 :: int) \<and> 3 < sizeof_socket_resp_t
   \<and> customext_recv_response 3 \<lparr>resp_result = 0\<rparr> \<lparr>sock_fd = 5, customext_socket_initialized = True\<rparr>
       = (True, \<lparr>resp_result = 0\<rparr>, \<lparr>sock_fd = 5, customext_socket_initialized = True\<rparr>,
          [Sys_recv 5 3])
   \<and> recv_header 1 \<lparr>msg_type = MSG_TYPE_CMD_REQ, reserved = 0\<rparr> connected
       = (True, \<lparr>msg_type = MSG_TYPE_CMD_REQ, reserved = 0\<rparr>, connected, [Sys_recv 3 1])
   \<and> recv_cmd_response 3 \<lparr>result = 0\<rparr> connected
       = (False, \<lparr>result = 0\<rparr>, fst (close connected),
          [Sys_recv 3 3, Sys_close 3, Sys_close 4, Sys_close 5])"
  by (simp add: customext_recv_response_def recv_header_def recv_cmd_response_def
      sizeof_socket_resp_t_def sizeof_cmd_resp_t_def connected_def close_def Let_def)

section \<open>The instruction hook\<close>

text \<open>
  Claim C10. The hook calls the dispatch with the value of register \<open>rs1\<close> (of \<open>rs2\<close>) when
  the bit \<open>xs1\<close> (\<open>xs2\<close>) of the instruction is set and with the all-ones value otherwise,
  and a request sent carries these operands; the register file after the hook is the
  one write of the dispatch result to \<open>rd\<close> when the bit \<open>xd\<close> is set, and the whole
  architectural state is untouched when it is clear; the hook returns \<open>pc + 4\<close>.
\<close>

theorem instruction_hook_edges:
  assumes "bebop_custom W env (b, st) insn pc = (npc, (b', st'), evs)"
  shows "\<exists>xd. CUSTOMFN env b insn (if insn_xs1 insn then XPR st (insn_rs1 insn) else - 1)
                 (if insn_xs2 insn then XPR st (insn_rs2 insn) else - 1) = (xd, b', evs)
          \<and> (\<forall>req \<in> set (sent_requests evs).
                 xs1 req = (if insn_xs1 insn then XPR st (insn_rs1 insn) else - 1)
               \<and> xs2 req = (if insn_xs2 insn then XPR st (insn_rs2 insn) else - 1))
          \<and> XPR st' = (if insn_xd insn then W (XPR st) (insn_rd insn) xd else XPR st)
          \<and> (\<not> insn_xd insn \<longrightarrow> st' = st)
          \<and> npc = pc + 4"
proof -
  let ?a1 = "if insn_xs1 insn then XPR st (insn_rs1 insn) else - 1"
  let ?a2 = "if insn_xs2 insn then XPR st (insn_rs2 insn) else - 1"
  obtain xd b1 e1 where c: "CUSTOMFN env b insn ?a1 ?a2 = (xd, b1, e1)"
    by (metis prod_cases3)
  then have run: "b' = b1" "evs = e1" "npc = pc + 4"
    "st' = (if insn_xd insn
            then st\<lparr>log_reg_write :=
                      (log_reg_write st)(push_bit 4 (ucast (insn_rd insn)) \<mapsto> (xd, 0)),
                    XPR := W (XPR st) (insn_rd insn) xd\<rparr>
            else st)"
    using assms by (simp_all add: bebop_custom_def Let_def split: if_splits)
  have "send_and_wait env (ucast (insn_funct insn)) ?a1 ?a2 (socket_client b)
      = (xd, socket_client b1, e1)"
    using c by (auto simp add: CUSTOMFN_def Let_def split: prod.splits if_splits)
  from send_and_wait_sent [OF this]
  have "\<forall>req \<in> set (sent_requests e1). xs1 req = ?a1 \<and> xs2 req = ?a2"
    by (auto simp add: the_request_def)
  with c run show ?thesis by auto
qed

lemma sample_hook_run:
  "bebop_custom (\<lambda>f i v. f(i := v)) dispatch_ok (sample_bebop, sample_state) sample_insn 0x80000000
     = (0x80000004,
        (\<lparr>bebop_state = \<lparr>enable = True, resetted = True\<rparr>, socket_client = connected\<rparr>,
         \<lparr>XPR = (\<lambda>_. 0)(11 := 0x1000, 10 := 42),
          log_reg_write = [160 \<mapsto> (42, 0)]\<rparr>),
        [Sys_socket CMD 3, Sys_inet_pton 1, Sys_connect CMD 3 0,
         Sys_socket DMA_READ 4, Sys_connect DMA_READ 4 0,
         Sys_socket DMA_WRITE 5, Sys_connect DMA_WRITE 5 0,
         Thread_detach DMA_READ, Thread_detach DMA_WRITE,
         Sys_send 3 (the_request 24 0x1000 (- 1)) 32, Sys_recv 3 8])"
  by (simp add: bebop_custom_def CUSTOMFN_def reset_def sample_bebop_def sample_state_def
      sample_insn_def send_and_wait_def init_def start_dma_handler_def send_cmd_request_def
      recv_cmd_response_def sizeof_cmd_resp_t_def dispatch_ok_def env_ok_def connected_def
      SocketClient_ctor_def the_request_def Let_def)

theorem instruction_hook_edges_witness:
  "fst (bebop_custom (\<lambda>f i v. f(i := v)) dispatch_ok (sample_bebop, sample_state) sample_insn
          0x80000000) = 0x80000004
   \<and> xs1 (the_request 24 0x1000 (- 1)) = 0x1000
   \<and> xs2 (the_request 24 0x1000 (- 1)) = 0xFFFFFFFFFFFFFFFF
   \<and> XPR (snd (fst (snd (bebop_custom (\<lambda>f i v. f(i := v)) dispatch_ok
                            (sample_bebop, sample_state) sample_insn 0x80000000)))) 10 = 42"
proof -
  from instruction_hook_edges [OF sample_hook_run]
  have "xs1 (the_request 24 0x1000 (- 1)) = 0x1000
        \<and> xs2 (the_request 24 0x1000 (- 1)) = 0xFFFFFFFFFFFFFFFF"
    by (auto simp add: sample_insn_def sample_state_def)
  then show ?thesis by (simp add: sample_hook_run)
qed

end
